(* ===== verification/Prelude.thy ===== *)
theory Prelude
  imports Main "HOL-Library.Word"
begin

text \<open>
  What every component of the server shares: the machine types, Go's error values with their
  chains (\<open>errors.New\<close>, \<open>fmt.Errorf\<close>, \<open>errors.Is\<close>, gRPC status errors), contexts, and the
  collections of facts the component proofs run on.

  Go strings are byte sequences, so they are HOL strings (one \<open>char\<close> per byte) and
  \<open>length\<close> is Go's \<open>len\<close>.
\<close>

named_theorems frame \<open>what an operation leaves unchanged\<close>

section \<open>Machine types\<close>

type_synonym byte = "8 word"
type_synonym int64 = "64 word"
type_synonym int32 = "32 word"

definition string_bytes :: "string \<Rightarrow> byte list" where
  "string_bytes s = map of_char s"

definition bytes_string :: "byte list \<Rightarrow> string" where
  "bytes_string bs = map (\<lambda>b. char_of (unat b)) bs"

lemma length_string_bytes [simp]: "length (string_bytes s) = length s"
  by (simp add: string_bytes_def)

section \<open>Error values\<close>

text \<open>
  The sentinels are the package-level error variables the code compares with \<open>errors.Is\<close>.
  \<open>Errorf p e q\<close> is \<open>fmt.Errorf\<close> with text \<open>p\<close> before and \<open>q\<close> after the wrapped
  error (\<open>%w\<close>); \<open>New\<close> is an unwrapped error text, \<open>Quoted p s q\<close> the text \<open>p\<close>, the value
  \<open>s\<close> in quotes (\<open>%q\<close>) and \<open>q\<close>; \<open>Status\<close> a gRPC status; \<open>External\<close>
  an error handed over by code outside the repository (the driver, the transport).
\<close>

datatype sentinel =
    ErrInvalidInput | ErrUnauthenticated | ErrInvalidSample
  | EOF | ErrUnexpectedEOF | ErrNoRows | ErrServerClosed | ErrHelp

datatype code = InvalidArgument | Unauthenticated | Internal | Unimplemented

datatype go_error =
    Sentinel sentinel
  | New string
  | Errorf string go_error string
  | Quoted string string string
  | Status code string
  | External string

fun errors_is :: "go_error \<Rightarrow> sentinel \<Rightarrow> bool" where
  "errors_is (Sentinel s) t \<longleftrightarrow> s = t"
| "errors_is (Errorf p e q) t \<longleftrightarrow> errors_is e t"
| "errors_is (New _) t \<longleftrightarrow> False"
| "errors_is (Quoted _ _ _) t \<longleftrightarrow> False"
| "errors_is (Status _ _) t \<longleftrightarrow> False"
| "errors_is (External _) t \<longleftrightarrow> False"

definition wrap_error :: "string \<Rightarrow> go_error \<Rightarrow> go_error" where
  "wrap_error p e = Errorf p e ''''"

lemma errors_is_wrap [simp]: "errors_is (wrap_error p e) t = errors_is e t"
  by (simp add: wrap_error_def)

lemma errors_is_functional: "errors_is e s \<Longrightarrow> errors_is e t \<Longrightarrow> s = t"
  by (induction e t rule: errors_is.induct) auto

section \<open>Contexts\<close>

text \<open>
  A \<open>context.Context\<close> as the code uses it: whether it is already cancelled when a call
  receives it, and the timeout in seconds it carries. \<open>context.WithTimeout\<close> keeps the
  parent's cancellation.
\<close>

record ctx =
  ctx_done :: bool
  ctx_timeout :: "nat option"

definition background :: ctx where
  "background = \<lparr>ctx_done = False, ctx_timeout = None\<rparr>"

definition with_timeout :: "ctx \<Rightarrow> nat \<Rightarrow> ctx" where
  "with_timeout c n = c\<lparr>ctx_timeout := Some (case ctx_timeout c of None \<Rightarrow> n | Some m \<Rightarrow> min m n)\<rparr>"

lemma ctx_done_with_timeout [simp]: "ctx_done (with_timeout c n) = ctx_done c"
  by (simp add: with_timeout_def)

lemma ctx_done_background [simp]: "\<not> ctx_done background"
  by (simp add: background_def)

section \<open>Generic facts\<close>

lemma find_in_set: "find P xs = Some x \<Longrightarrow> x \<in> set xs \<and> P x"
  by (induction xs) (auto split: if_splits)

lemma find_append: "find P (xs @ ys) = (case find P xs of None \<Rightarrow> find P ys | Some x \<Rightarrow> Some x)"
  by (induction xs) auto

lemma find_none_iff: "find P xs = None \<longleftrightarrow> (\<forall>x \<in> set xs. \<not> P x)"
  by (induction xs) auto

end
