(* ===== verification/Go_Strings.thy ===== *)
theory Go_Strings
  imports Prelude "HOL-Library.Sublist"
begin

text \<open>
  Go's \<open>strings.TrimSpace\<close> on byte strings. \<open>white_space\<close> lists the UTF-8 encodings of the
  25 code points for which \<open>unicode.IsSpace\<close> holds. Trimming decodes one rune at the end it
  works on; UTF-8 is self-synchronising, so the first (last) rune is a given white-space rune
  exactly if the string starts (ends) with its encoding, and a malformed byte is never space.
\<close>

definition char_code :: "nat \<Rightarrow> char" where
  "char_code n = char_of n"

definition white_space :: "string list" where
  "white_space = map (map char_code)
     ([[9], [10], [11], [12], [13], [32],
       [194, 133], [194, 160],
       [225, 154, 128],
       [226, 128, 128], [226, 128, 129], [226, 128, 130], [226, 128, 131],
       [226, 128, 132], [226, 128, 133], [226, 128, 134], [226, 128, 135],
       [226, 128, 136], [226, 128, 137], [226, 128, 138],
       [226, 128, 168], [226, 128, 169], [226, 128, 175],
       [226, 129, 159],
       [227, 128, 128]])"

fun has_prefix :: "string \<Rightarrow> string \<Rightarrow> bool" where
  "has_prefix [] s = True"
| "has_prefix (p # ps) (c # cs) = (p = c \<and> has_prefix ps cs)"
| "has_prefix (p # ps) [] = False"

lemma has_prefix_iff: "has_prefix p s \<longleftrightarrow> (\<exists>t. s = p @ t)"
  by (induction p s rule: has_prefix.induct) auto

lemma has_prefix_nonempty: "has_prefix w s \<Longrightarrow> w \<noteq> [] \<Longrightarrow> s \<noteq> []"
  by (auto simp: has_prefix_iff)

text \<open>Drop words of \<open>ws\<close> from the front for as long as one of them is there.\<close>

function strip_words :: "string list \<Rightarrow> string \<Rightarrow> string" where
  "strip_words ws s =
     (case find (\<lambda>w. w \<noteq> [] \<and> has_prefix w s) ws of
        None \<Rightarrow> s
      | Some w \<Rightarrow> strip_words ws (drop (length w) s))"
  by pat_completeness auto
termination
  by (relation "measure (\<lambda>(ws, s). length s)") (auto dest!: find_in_set dest: has_prefix_nonempty)

declare strip_words.simps [simp del]

definition trim_left :: "string \<Rightarrow> string" where
  "trim_left s = strip_words white_space s"

definition trim_right :: "string \<Rightarrow> string" where
  "trim_right s = rev (strip_words (map rev white_space) (rev s))"

definition trim_space :: "string \<Rightarrow> string" where
  "trim_space s = trim_right (trim_left s)"

section \<open>Stripping\<close>

lemma strip_words_none:
  "(\<forall>w \<in> set ws. w \<noteq> [] \<longrightarrow> \<not> has_prefix w s) \<Longrightarrow> strip_words ws s = s"
  by (subst strip_words.simps) (auto split: option.split dest: find_in_set)

lemma strip_words_clean:
  "w \<in> set ws \<Longrightarrow> w \<noteq> [] \<Longrightarrow> \<not> has_prefix w (strip_words ws s)"
proof (induction ws s rule: strip_words.induct)
  case (1 ws s)
  then show ?case
    by (subst strip_words.simps) (auto simp: find_none_iff split: option.split)
qed

lemma strip_words_suffix: "suffix (strip_words ws s) s"
proof (induction ws s rule: strip_words.induct)
  case (1 ws s)
  then show ?case
    by (subst strip_words.simps)
       (auto split: option.split intro: suffix_order.trans suffix_drop)
qed

lemma strip_words_idem [simp]: "strip_words ws (strip_words ws s) = strip_words ws s"
  by (intro strip_words_none ballI impI) (rule strip_words_clean)

lemma length_strip_words: "length (strip_words ws s) \<le> length s"
  using strip_words_suffix suffix_length_le by blast

section \<open>Trimming\<close>

lemma trim_right_prefix: "prefix (trim_right s) s"
  using strip_words_suffix [of "map rev white_space" "rev s"]
  by (simp add: trim_right_def suffix_to_prefix)

lemma trim_left_suffix: "suffix (trim_left s) s"
  by (simp add: trim_left_def strip_words_suffix)

lemma length_trim_space: "length (trim_space s) \<le> length s"
proof -
  have "length (trim_right (trim_left s)) \<le> length (trim_left s)"
    by (rule prefix_length_le [OF trim_right_prefix])
  also have "\<dots> \<le> length s"
    by (simp add: trim_left_def length_strip_words)
  finally show ?thesis by (simp add: trim_space_def)
qed

lemma white_space_nonempty: "w \<in> set white_space \<Longrightarrow> w \<noteq> []"
  by (auto simp: white_space_def)

lemma trim_left_clean: "w \<in> set white_space \<Longrightarrow> \<not> has_prefix w (trim_left s)"
  by (simp add: trim_left_def strip_words_clean white_space_nonempty)

lemma trim_space_no_leading: "w \<in> set white_space \<Longrightarrow> \<not> prefix w (trim_space s)"
  using trim_left_clean [of w s] trim_right_prefix [of "trim_left s"]
  by (auto simp: trim_space_def has_prefix_iff prefix_def)

lemma trim_space_no_trailing: "w \<in> set white_space \<Longrightarrow> \<not> suffix w (trim_space s)"
proof -
  assume w: "w \<in> set white_space"
  then have "\<not> has_prefix (rev w) (strip_words (map rev white_space) (rev (trim_left s)))"
    by (intro strip_words_clean) (auto dest: white_space_nonempty)
  then show ?thesis
    by (auto simp: trim_space_def trim_right_def has_prefix_iff suffix_to_prefix prefix_def)
qed

text \<open>A string with no white-space rune at either end is left alone.\<close>

lemma trim_space_fixed:
  assumes "\<And>w. w \<in> set white_space \<Longrightarrow> \<not> prefix w s \<and> \<not> suffix w s"
  shows "trim_space s = s"
proof -
  have "trim_left s = s"
    unfolding trim_left_def
    by (rule strip_words_none) (use assms in \<open>auto simp: has_prefix_iff prefix_def\<close>)
  moreover have "strip_words (map rev white_space) (rev s) = rev s"
    by (rule strip_words_none)
       (use assms in \<open>auto simp: has_prefix_iff suffix_to_prefix prefix_def\<close>)
  ultimately show ?thesis by (simp add: trim_space_def trim_right_def)
qed

lemma trim_space_idem [simp]: "trim_space (trim_space s) = trim_space s"
  by (rule trim_space_fixed) (simp add: trim_space_no_leading trim_space_no_trailing)

lemma trim_space_empty [simp]: "trim_space [] = []"
  using length_trim_space [of "[]"] by simp

end
