(* ===== verification/Go_Float.thy ===== *)
theory Go_Float
  imports Prelude
begin

text \<open>
  Go's \<open>float64\<close> as its 64 bits (IEEE 754 binary64), as far as the telemetry checks use it:
  \<open>math.IsNaN\<close>, \<open>math.IsInf\<close> and the ordered comparisons. Every finite value is a multiple of
  2 to the power -1074, so \<open>f64_scaled\<close>, the value times 2 to the power 1074, is an exact
  integer; on an infinity the same formula gives a magnitude above every finite one. A
  comparison with a NaN is false.
\<close>

type_synonym float64 = "64 word"

definition f64_exponent :: "float64 \<Rightarrow> int" where
  "f64_exponent w = uint (take_bit 11 (drop_bit 52 w))"

definition f64_fraction :: "float64 \<Rightarrow> int" where
  "f64_fraction w = uint (take_bit 52 w)"

definition f64_negative :: "float64 \<Rightarrow> bool" where
  "f64_negative w = bit w 63"

definition is_nan :: "float64 \<Rightarrow> bool" where
  "is_nan w \<longleftrightarrow> f64_exponent w = 2047 \<and> f64_fraction w \<noteq> 0"

definition is_inf :: "float64 \<Rightarrow> bool" where
  "is_inf w \<longleftrightarrow> f64_exponent w = 2047 \<and> f64_fraction w = 0"

definition f64_magnitude :: "float64 \<Rightarrow> int" where
  "f64_magnitude w =
     (if f64_exponent w = 0 then f64_fraction w
      else (2 ^ 52 + f64_fraction w) * 2 ^ nat (f64_exponent w - 1))"

definition f64_scaled :: "float64 \<Rightarrow> int" where
  "f64_scaled w = (if f64_negative w then - f64_magnitude w else f64_magnitude w)"

definition f64_less :: "float64 \<Rightarrow> float64 \<Rightarrow> bool" where
  "f64_less x y \<longleftrightarrow> \<not> is_nan x \<and> \<not> is_nan y \<and> f64_scaled x < f64_scaled y"

definition f64_hundred :: float64 where
  "f64_hundred = 4636737291354636288"

lemma f64_scaled_zero: "f64_scaled 0 = 0"
  by (simp add: f64_scaled_def f64_negative_def f64_magnitude_def f64_exponent_def
      f64_fraction_def)

lemma f64_zero_not_nan: "\<not> is_nan 0"
  by (simp add: is_nan_def f64_exponent_def)

lemma f64_exponent_hundred: "f64_exponent f64_hundred = 1029"
  by (simp add: f64_exponent_def f64_hundred_def)

lemma f64_fraction_hundred: "f64_fraction f64_hundred = 9 * 2 ^ 48"
  by (simp add: f64_fraction_def f64_hundred_def)

lemma f64_negative_hundred: "\<not> f64_negative f64_hundred"
  by (simp add: f64_negative_def f64_hundred_def)

lemma f64_scaled_hundred: "f64_scaled f64_hundred = 100 * 2 ^ 1074"
proof -
  have "f64_scaled f64_hundred = (2 ^ 52 + 9 * 2 ^ 48) * 2 ^ 1028"
    by (simp add: f64_scaled_def f64_magnitude_def f64_exponent_hundred f64_fraction_hundred
        f64_negative_hundred)
  also have "(2 ^ 52 + 9 * 2 ^ 48 :: int) = 100 * 2 ^ 46" by simp
  also have "(100 * 2 ^ 46 * 2 ^ 1028 :: int) = 100 * 2 ^ (46 + 1028)"
    by (simp only: power_add mult.assoc)
  finally show ?thesis by simp
qed

lemma f64_hundred_not_nan: "\<not> is_nan f64_hundred"
  by (simp add: is_nan_def f64_exponent_hundred)

lemma f64_fraction_bounds: "0 \<le> f64_fraction w" "f64_fraction w < 2 ^ 52"
  unfolding f64_fraction_def unsigned_take_bit_eq
  by (simp, rule take_bit_int_less_exp)

lemma f64_exponent_bounds: "0 \<le> f64_exponent w" "f64_exponent w \<le> 2047"
proof -
  have "f64_exponent w < 2 ^ 11"
    unfolding f64_exponent_def unsigned_take_bit_eq by (rule take_bit_int_less_exp)
  then show "f64_exponent w \<le> 2047" by simp
qed (simp add: f64_exponent_def)

text \<open>An infinity lies outside every finite bound of the comparisons.\<close>

lemma is_inf_magnitude: "is_inf w \<Longrightarrow> f64_magnitude w = 2 ^ 52 * 2 ^ 2046"
  by (simp add: is_inf_def f64_magnitude_def)

lemma is_inf_out_of_range:
  assumes "is_inf w"
  shows "f64_less w 0 \<or> f64_less f64_hundred w"
proof -
  have not_nan: "\<not> is_nan w" using assms by (simp add: is_inf_def is_nan_def)
  have "(100::int) * 2 ^ 1074 < 2 ^ 52 * 2 ^ 2046" by simp
  then have "f64_scaled w < f64_scaled 0 \<or> f64_scaled f64_hundred < f64_scaled w"
    unfolding f64_scaled_zero f64_scaled_hundred f64_scaled_def [of w] is_inf_magnitude [OF assms]
    by (simp split: if_split)
  with not_nan show ?thesis
    by (auto simp: f64_less_def f64_zero_not_nan f64_hundred_not_nan)
qed

text \<open>The range the server accepts for a percentage.\<close>

definition f64_between_0_100 :: "float64 \<Rightarrow> bool" where
  \<comment> \<open>\<open>f64_scaled\<close> is the value times 2 to the power 1074\<close>
  "f64_between_0_100 w \<longleftrightarrow> \<not> is_nan w \<and> 0 \<le> f64_scaled w \<and> f64_scaled w \<le> 100 * 2 ^ 1074"

lemma cpu_check:
  "is_nan w \<or> is_inf w \<or> f64_less w 0 \<or> f64_less f64_hundred w \<longleftrightarrow> \<not> f64_between_0_100 w"
proof (cases "is_inf w")
  case True
  then show ?thesis using is_inf_out_of_range [of w]
    by (auto simp: f64_between_0_100_def f64_less_def f64_scaled_zero
        f64_scaled_hundred)
next
  case False
  then show ?thesis
    by (auto simp: f64_between_0_100_def f64_less_def f64_scaled_zero
        f64_scaled_hundred f64_zero_not_nan f64_hundred_not_nan)
qed

end
