(* ===== verification/Protocol.thy ===== *)
theory Protocol
  imports Go_Strings Go_Float
begin

text \<open>
  The generated protocol bindings, \<^verbatim>\<open>server/internal/gen/agent/v1\<close>: the messages as records, a
  message pointer as an \<open>option\<close> (\<open>None\<close> is Go's \<open>nil\<close>), the \<open>oneof\<close> payload as a datatype whose
  constructors hold pointers again, the nil-safe getters and \<open>Reset\<close>. Also the numbers of the third-party
  packages the server asks about identifiers and timestamps, as one record of parameters.
\<close>

section \<open>Messages\<close>

text \<open>A protobuf well-known \<open>Timestamp\<close>, and a \<open>time.Time\<close> as the nanoseconds since Go's zero time.\<close>

record timestamp =
  ts_seconds :: int64
  ts_nanos :: int32

type_synonym go_time = int

definition is_zero_time :: "go_time \<Rightarrow> bool" where
  "is_zero_time t \<longleftrightarrow> t = 0"

record enroll_request =
  req_hostname :: string
  req_operating_system :: string
  req_os_version :: string
  req_architecture :: string
  req_agent_version :: string
  req_capabilities :: "string list"

record enroll_response =
  resp_machine_id :: string
  resp_agent_id :: string
  resp_agent_secret :: string

record authenticate =
  auth_agent_id :: string
  auth_agent_secret :: string

record heartbeat =
  hb_sent_at :: "timestamp option"

record telemetry =
  tm_collected_at :: "timestamp option"
  tm_cpu_usage_percent :: float64
  tm_memory_total_bytes :: int64
  tm_memory_used_bytes :: int64
  tm_disk_total_bytes :: int64
  tm_disk_used_bytes :: int64
  tm_uptime_seconds :: int64

datatype payload =
    Authenticate "authenticate option"
  | Heartbeat "heartbeat option"
  | Telemetry "telemetry option"

record agent_message =
  msg_payload :: "payload option"

section \<open>Getters\<close>

definition get_hostname :: "enroll_request option \<Rightarrow> string" where
  "get_hostname x = (case x of None \<Rightarrow> '''' | Some r \<Rightarrow> req_hostname r)"

definition get_operating_system :: "enroll_request option \<Rightarrow> string" where
  "get_operating_system x = (case x of None \<Rightarrow> '''' | Some r \<Rightarrow> req_operating_system r)"

definition get_os_version :: "enroll_request option \<Rightarrow> string" where
  "get_os_version x = (case x of None \<Rightarrow> '''' | Some r \<Rightarrow> req_os_version r)"

definition get_architecture :: "enroll_request option \<Rightarrow> string" where
  "get_architecture x = (case x of None \<Rightarrow> '''' | Some r \<Rightarrow> req_architecture r)"

definition get_agent_version :: "enroll_request option \<Rightarrow> string" where
  "get_agent_version x = (case x of None \<Rightarrow> '''' | Some r \<Rightarrow> req_agent_version r)"

definition get_capabilities :: "enroll_request option \<Rightarrow> string list" where
  "get_capabilities x = (case x of None \<Rightarrow> [] | Some r \<Rightarrow> req_capabilities r)"

definition get_machine_id :: "enroll_response option \<Rightarrow> string" where
  "get_machine_id x = (case x of None \<Rightarrow> '''' | Some r \<Rightarrow> resp_machine_id r)"

definition get_response_agent_id :: "enroll_response option \<Rightarrow> string" where
  "get_response_agent_id x = (case x of None \<Rightarrow> '''' | Some r \<Rightarrow> resp_agent_id r)"

definition get_response_agent_secret :: "enroll_response option \<Rightarrow> string" where
  "get_response_agent_secret x = (case x of None \<Rightarrow> '''' | Some r \<Rightarrow> resp_agent_secret r)"

definition get_payload :: "agent_message option \<Rightarrow> payload option" where
  "get_payload x = (case x of None \<Rightarrow> None | Some m \<Rightarrow> msg_payload m)"

definition get_authenticate :: "agent_message option \<Rightarrow> authenticate option" where
  "get_authenticate x =
     (case x of None \<Rightarrow> None
      | Some m \<Rightarrow> (case msg_payload m of Some (Authenticate a) \<Rightarrow> a | _ \<Rightarrow> None))"

definition get_heartbeat :: "agent_message option \<Rightarrow> heartbeat option" where
  "get_heartbeat x =
     (case x of None \<Rightarrow> None
      | Some m \<Rightarrow> (case msg_payload m of Some (Heartbeat h) \<Rightarrow> h | _ \<Rightarrow> None))"

definition get_telemetry :: "agent_message option \<Rightarrow> telemetry option" where
  "get_telemetry x =
     (case x of None \<Rightarrow> None
      | Some m \<Rightarrow> (case msg_payload m of Some (Telemetry t) \<Rightarrow> t | _ \<Rightarrow> None))"

definition get_agent_id :: "authenticate option \<Rightarrow> string" where
  "get_agent_id x = (case x of None \<Rightarrow> '''' | Some a \<Rightarrow> auth_agent_id a)"

definition get_agent_secret :: "authenticate option \<Rightarrow> string" where
  "get_agent_secret x = (case x of None \<Rightarrow> '''' | Some a \<Rightarrow> auth_agent_secret a)"

definition get_sent_at :: "heartbeat option \<Rightarrow> timestamp option" where
  "get_sent_at x = (case x of None \<Rightarrow> None | Some h \<Rightarrow> hb_sent_at h)"

definition get_collected_at :: "telemetry option \<Rightarrow> timestamp option" where
  "get_collected_at x = (case x of None \<Rightarrow> None | Some t \<Rightarrow> tm_collected_at t)"

definition get_cpu_usage_percent :: "telemetry option \<Rightarrow> float64" where
  "get_cpu_usage_percent x = (case x of None \<Rightarrow> 0 | Some t \<Rightarrow> tm_cpu_usage_percent t)"

definition get_memory_total_bytes :: "telemetry option \<Rightarrow> int64" where
  "get_memory_total_bytes x = (case x of None \<Rightarrow> 0 | Some t \<Rightarrow> tm_memory_total_bytes t)"

definition get_memory_used_bytes :: "telemetry option \<Rightarrow> int64" where
  "get_memory_used_bytes x = (case x of None \<Rightarrow> 0 | Some t \<Rightarrow> tm_memory_used_bytes t)"

definition get_disk_total_bytes :: "telemetry option \<Rightarrow> int64" where
  "get_disk_total_bytes x = (case x of None \<Rightarrow> 0 | Some t \<Rightarrow> tm_disk_total_bytes t)"

definition get_disk_used_bytes :: "telemetry option \<Rightarrow> int64" where
  "get_disk_used_bytes x = (case x of None \<Rightarrow> 0 | Some t \<Rightarrow> tm_disk_used_bytes t)"

definition get_uptime_seconds :: "telemetry option \<Rightarrow> int64" where
  "get_uptime_seconds x = (case x of None \<Rightarrow> 0 | Some t \<Rightarrow> tm_uptime_seconds t)"

lemmas getter_defs =
  get_hostname_def get_operating_system_def get_os_version_def get_architecture_def
  get_agent_version_def get_capabilities_def get_machine_id_def get_response_agent_id_def
  get_response_agent_secret_def get_payload_def get_agent_id_def get_agent_secret_def
  get_sent_at_def get_collected_at_def get_cpu_usage_percent_def get_memory_total_bytes_def
  get_memory_used_bytes_def get_disk_total_bytes_def get_disk_used_bytes_def
  get_uptime_seconds_def

text \<open>At most one of the payload getters answers: the payload is a \<open>oneof\<close>.\<close>

lemma get_authenticate_Some:
  "get_authenticate x = Some a \<longleftrightarrow> (\<exists>m. x = Some m \<and> msg_payload m = Some (Authenticate (Some a)))"
  by (auto simp: get_authenticate_def split: option.splits payload.splits)

lemma get_heartbeat_Some:
  "get_heartbeat x = Some h \<longleftrightarrow> (\<exists>m. x = Some m \<and> msg_payload m = Some (Heartbeat (Some h)))"
  by (auto simp: get_heartbeat_def split: option.splits payload.splits)

lemma get_telemetry_Some:
  "get_telemetry x = Some t \<longleftrightarrow> (\<exists>m. x = Some m \<and> msg_payload m = Some (Telemetry (Some t)))"
  by (auto simp: get_telemetry_def split: option.splits payload.splits)

lemma get_nil [simp]:
  "get_authenticate None = None" "get_heartbeat None = None" "get_telemetry None = None"
  by (simp_all add: get_authenticate_def get_heartbeat_def get_telemetry_def)

section \<open>Reset\<close>

text \<open>The \<open>Reset\<close> methods write the zero value of the message through their receiver.\<close>

definition reset_enroll_request :: "enroll_request \<Rightarrow> enroll_request" where
  "reset_enroll_request x = x\<lparr>req_hostname := '''', req_operating_system := '''', req_os_version := '''',
     req_architecture := '''', req_agent_version := '''', req_capabilities := []\<rparr>"

definition reset_enroll_response :: "enroll_response \<Rightarrow> enroll_response" where
  "reset_enroll_response x = x\<lparr>resp_machine_id := '''', resp_agent_id := '''', resp_agent_secret := ''''\<rparr>"

definition reset_agent_message :: "agent_message \<Rightarrow> agent_message" where
  "reset_agent_message x = x\<lparr>msg_payload := None\<rparr>"

definition reset_authenticate :: "authenticate \<Rightarrow> authenticate" where
  "reset_authenticate x = x\<lparr>auth_agent_id := '''', auth_agent_secret := ''''\<rparr>"

definition reset_heartbeat :: "heartbeat \<Rightarrow> heartbeat" where
  "reset_heartbeat x = x\<lparr>hb_sent_at := None\<rparr>"

definition reset_telemetry :: "telemetry \<Rightarrow> telemetry" where
  "reset_telemetry x = x\<lparr>tm_collected_at := None, tm_cpu_usage_percent := 0, tm_memory_total_bytes := 0,
     tm_memory_used_bytes := 0, tm_disk_total_bytes := 0, tm_disk_used_bytes := 0, tm_uptime_seconds := 0\<rparr>"

text \<open>No getter tells a message that was reset from no message at all.\<close>

lemma reset_like_nil:
  "get_hostname (Some (reset_enroll_request q)) = get_hostname None"
  "get_operating_system (Some (reset_enroll_request q)) = get_operating_system None"
  "get_os_version (Some (reset_enroll_request q)) = get_os_version None"
  "get_architecture (Some (reset_enroll_request q)) = get_architecture None"
  "get_agent_version (Some (reset_enroll_request q)) = get_agent_version None"
  "get_capabilities (Some (reset_enroll_request q)) = get_capabilities None"
  "get_machine_id (Some (reset_enroll_response r)) = get_machine_id None"
  "get_response_agent_id (Some (reset_enroll_response r)) = get_response_agent_id None"
  "get_response_agent_secret (Some (reset_enroll_response r)) = get_response_agent_secret None"
  "get_agent_id (Some (reset_authenticate a)) = get_agent_id None"
  "get_agent_secret (Some (reset_authenticate a)) = get_agent_secret None"
  "get_sent_at (Some (reset_heartbeat h)) = get_sent_at None"
  "get_collected_at (Some (reset_telemetry t)) = get_collected_at None"
  "get_cpu_usage_percent (Some (reset_telemetry t)) = get_cpu_usage_percent None"
  "get_memory_total_bytes (Some (reset_telemetry t)) = get_memory_total_bytes None"
  "get_memory_used_bytes (Some (reset_telemetry t)) = get_memory_used_bytes None"
  "get_disk_total_bytes (Some (reset_telemetry t)) = get_disk_total_bytes None"
  "get_disk_used_bytes (Some (reset_telemetry t)) = get_disk_used_bytes None"
  "get_uptime_seconds (Some (reset_telemetry t)) = get_uptime_seconds None"
  by (simp_all add: getter_defs reset_enroll_request_def reset_enroll_response_def
      reset_authenticate_def reset_heartbeat_def reset_telemetry_def)

lemma reset_message_like_nil:
  "get_payload (Some (reset_agent_message m)) = get_payload None"
  "get_authenticate (Some (reset_agent_message m)) = get_authenticate None"
  "get_heartbeat (Some (reset_agent_message m)) = get_heartbeat None"
  "get_telemetry (Some (reset_agent_message m)) = get_telemetry None"
  by (simp_all add: get_payload_def get_authenticate_def get_heartbeat_def get_telemetry_def
      reset_agent_message_def)

section \<open>Third-party helpers\<close>

text \<open>
  \<open>ext_uuid_valid s\<close>: \<open>uuid.Validate(s)\<close> of \<^verbatim>\<open>github.com/google/uuid\<close> returns no error;
  \<open>ext_ts_valid\<close>: \<open>Timestamp.CheckValid\<close> returns no error; \<open>ext_ts_time\<close>: \<open>Timestamp.AsTime\<close>
  of \<^verbatim>\<open>google.golang.org/protobuf\<close>.
\<close>

record externals =
  ext_uuid_valid :: "string \<Rightarrow> bool"
  ext_ts_valid :: "timestamp \<Rightarrow> bool"
  ext_ts_time :: "timestamp \<Rightarrow> go_time"

end
