(* ===== verification/Go_Encoding.thy ===== *)
theory Go_Encoding
  imports Go_Strings Go_Crypto
begin

text \<open>
  \<open>base64.RawURLEncoding\<close> and \<open>io.ReadFull\<close> of Go's standard library. The decoder is the
  specification side of the encoding: it exists to state that nothing of the random bytes is
  lost. A reader is the list of results its successive \<open>Read\<close> calls give (bytes and an
  optional error); a call that asks for fewer bytes than the next result holds takes a part of
  it, and a used-up reader answers \<open>io.EOF\<close>, as \<open>bytes.Reader\<close> does.
\<close>

section \<open>Base64, URL alphabet, no padding\<close>

definition url_alphabet :: string where
  "url_alphabet = ''ABCDEFGHIJKLMNOPQRSTUVWXYZabcdefghijklmnopqrstuvwxyz0123456789-_''"

definition b64_char :: "nat \<Rightarrow> char" where
  "b64_char n = url_alphabet ! (n mod 64)"

fun b64_encode :: "byte list \<Rightarrow> string" where
  "b64_encode [] = []"
| "b64_encode [a] =
     (let v = unat a * 65536
      in [b64_char (v div 262144), b64_char (v div 4096)])"
| "b64_encode [a, b] =
     (let v = unat a * 65536 + unat b * 256
      in [b64_char (v div 262144), b64_char (v div 4096), b64_char (v div 64)])"
| "b64_encode (a # b # c # bs) =
     (let v = unat a * 65536 + unat b * 256 + unat c
      in [b64_char (v div 262144), b64_char (v div 4096), b64_char (v div 64), b64_char v]
           @ b64_encode bs)"

fun index_of :: "char \<Rightarrow> string \<Rightarrow> nat" where
  "index_of c [] = 0"
| "index_of c (x # xs) = (if c = x then 0 else Suc (index_of c xs))"

definition b64_digit :: "char \<Rightarrow> nat" where
  "b64_digit c = index_of c url_alphabet"

fun b64_decode :: "string \<Rightarrow> byte list" where
  "b64_decode (p # q # r # s # cs) =
     (let v = b64_digit p * 262144 + b64_digit q * 4096 + b64_digit r * 64 + b64_digit s
      in [of_nat (v div 65536), of_nat (v div 256 mod 256), of_nat (v mod 256)]
           @ b64_decode cs)"
| "b64_decode [p, q, r] =
     (let v = b64_digit p * 262144 + b64_digit q * 4096 + b64_digit r * 64
      in [of_nat (v div 65536), of_nat (v div 256 mod 256)])"
| "b64_decode [p, q] =
     (let v = b64_digit p * 262144 + b64_digit q * 4096 in [of_nat (v div 65536)])"
| "b64_decode _ = []"

lemma length_url_alphabet: "length url_alphabet = 64"
  by (simp add: url_alphabet_def)

lemma distinct_url_alphabet: "distinct url_alphabet"
  by (simp add: url_alphabet_def)

lemma index_of_nth: "distinct xs \<Longrightarrow> i < length xs \<Longrightarrow> index_of (xs ! i) xs = i"
proof (induction xs arbitrary: i)
  case (Cons x xs)
  then show ?case by (cases i) auto
qed simp

lemma b64_digit_char [simp]: "b64_digit (b64_char n) = n mod 64"
  by (simp add: b64_digit_def b64_char_def index_of_nth distinct_url_alphabet length_url_alphabet)

lemma unat_byte_bound: "unat (b :: byte) < 256"
  using unsigned_less [of b, where ?'a = nat] by simp

lemma sextets:
  fixes v :: nat
  assumes "v < 16777216"
  shows "v div 262144 mod 64 * 262144 + v div 4096 mod 64 * 4096 + v div 64 mod 64 * 64
           + v mod 64 = v"
proof -
  have q2: "v div 4096 = v div 64 div 64" and q3: "v div 262144 = v div 64 div 64 div 64"
    using div_mult2_eq [of v 64 64] div_mult2_eq [of v 4096 64] by simp_all
  have "v = v div 64 * 64 + v mod 64" by simp
  moreover have "v div 64 = v div 64 div 64 * 64 + v div 64 mod 64" by simp
  moreover have "v div 64 div 64 = v div 64 div 64 div 64 * 64 + v div 64 div 64 mod 64" by simp
  moreover have "v div 262144 mod 64 = v div 262144"
    using assms by simp
  ultimately show ?thesis unfolding q2 q3 by linarith
qed

text \<open>The two and three digit tails carry zero bits, so the same identity serves them.\<close>

lemma sextets_tail1: "a < 256 \<Longrightarrow>
  (a * 65536 div 262144) mod 64 * 262144 + (a * 65536 div 4096) mod 64 * 4096 = (a * 65536 :: nat)"
  using sextets [of "a * 65536"] by (simp add: mod_mult_right_eq)

lemma sextets_tail2: "a < 256 \<Longrightarrow> b < 256 \<Longrightarrow>
  (a * 65536 + b * 256) div 262144 mod 64 * 262144 + (a * 65536 + b * 256) div 4096 mod 64 * 4096
    + (a * 65536 + b * 256) div 64 mod 64 * 64 = (a * 65536 + b * 256 :: nat)"
proof -
  assume ab: "a < 256" "b < 256"
  have "(a * 65536 + b * 256) mod 64 = 0"
    by (simp add: mod_eq_0_iff_dvd)
  with ab show ?thesis using sextets [of "a * 65536 + b * 256"] by simp
qed

lemma bytes_of_sum:
  fixes a b c :: nat
  assumes "b < 256" "c < 256"
  shows "(a * 65536 + b * 256 + c) div 65536 = a"
    and "(a * 65536 + b * 256 + c) div 256 mod 256 = b"
    and "(a * 65536 + b * 256 + c) mod 256 = c"
proof -
  have sum: "a * 65536 + b * 256 + c = c + (b + a * 256) * 256" by simp
  have quot: "(a * 65536 + b * 256 + c) div 256 = b + a * 256"
    unfolding sum using assms by (subst div_mult_self1) simp_all
  then show "(a * 65536 + b * 256 + c) div 256 mod 256 = b"
    using assms by (simp only: mod_mult_self1 mod_less)
  have "(a * 65536 + b * 256 + c) div 65536 = (b + a * 256) div 256"
    using div_mult2_eq [of "a * 65536 + b * 256 + c" 256 256] quot by simp
  then show "(a * 65536 + b * 256 + c) div 65536 = a"
    using assms by (simp add: div_mult_self1)
  show "(a * 65536 + b * 256 + c) mod 256 = c"
    unfolding sum using assms by (simp only: mod_mult_self1 mod_less)
qed

lemmas b64_step = b64_encode.simps b64_decode.simps Let_def b64_digit_char append.simps

lemma b64_roundtrip: "b64_decode (b64_encode bs) = bs"
proof (induction bs rule: b64_encode.induct)
  case 1
  show ?case by simp
next
  case (2 a)
  have "b64_decode (b64_encode [a]) = [of_nat (unat a * 65536 div 65536)]"
    by (simp only: b64_step sextets_tail1 [OF unat_byte_bound])
  then show ?case by simp
next
  case (3 a b)
  define v where "v = unat a * 65536 + unat b * 256"
  have "b64_decode (b64_encode [a, b]) = [of_nat (v div 65536), of_nat (v div 256 mod 256)]"
    by (simp only: b64_step sextets_tail2 [OF unat_byte_bound unat_byte_bound] v_def)
  moreover have "v div 65536 = unat a" "v div 256 mod 256 = unat b"
    using bytes_of_sum [OF unat_byte_bound, of 0 "unat a" b] by (simp_all add: v_def)
  ultimately show ?case by simp
next
  case (4 a b c bs)
  define v where "v = unat a * 65536 + unat b * 256 + unat c"
  have "v < 16777216"
    using unat_byte_bound [of a] unat_byte_bound [of b] unat_byte_bound [of c]
    unfolding v_def by linarith
  then have "b64_decode (b64_encode (a # b # c # bs))
      = of_nat (v div 65536) # of_nat (v div 256 mod 256) # of_nat (v mod 256)
          # b64_decode (b64_encode bs)"
    by (simp only: b64_step sextets v_def)
  moreover have "v div 65536 = unat a" "v div 256 mod 256 = unat b" "v mod 256 = unat c"
    unfolding v_def by (rule bytes_of_sum [OF unat_byte_bound unat_byte_bound])+
  ultimately show ?case using 4 by simp
qed

lemma b64_encode_inject: "b64_encode xs = b64_encode ys \<Longrightarrow> xs = ys"
  by (metis b64_roundtrip)

lemma length_b64_encode: "length (b64_encode bs) = (8 * length bs + 5) div 6"
  by (induction bs rule: b64_encode.induct) (simp_all add: Let_def)

lemma b64_char_in: "b64_char n \<in> set url_alphabet"
  by (simp add: b64_char_def length_url_alphabet)

lemma set_b64_encode: "set (b64_encode bs) \<subseteq> set url_alphabet"
  by (induction bs rule: b64_encode.induct) (auto simp: Let_def b64_char_in)

text \<open>White-space bytes lie below or above the codes of the alphabet.\<close>

lemma alphabet_not_space:
  assumes "w \<in> set white_space"
  shows "set w \<inter> set url_alphabet = {}"
proof -
  have "list_all (list_all (\<lambda>c. of_char c < (45::nat) \<or> 127 < (of_char c::nat))) white_space"
    by (simp add: white_space_def char_code_def)
  moreover have "list_all (\<lambda>c. 45 \<le> (of_char c::nat) \<and> of_char c \<le> (127::nat)) url_alphabet"
    by (simp add: url_alphabet_def)
  ultimately show ?thesis using assms by (fastforce simp: list_all_iff)
qed

lemma trim_space_alphabet:
  assumes "set s \<subseteq> set url_alphabet"
  shows "trim_space s = s"
proof (rule trim_space_fixed)
  fix w assume w: "w \<in> set white_space"
  have "set w \<subseteq> set url_alphabet" if "prefix w s \<or> suffix w s"
    using that assms by (auto dest: set_mono_prefix set_mono_suffix)
  with w show "\<not> prefix w s \<and> \<not> suffix w s"
    using alphabet_not_space [OF w] white_space_nonempty [OF w] by (metis Int_absorb2 set_empty)
qed

lemma trim_space_b64 [simp]: "trim_space (b64_encode bs) = b64_encode bs"
  by (rule trim_space_alphabet) (rule set_b64_encode)

section \<open>Readers\<close>

type_synonym reader = "(byte list \<times> go_error option) list"

text \<open>\<open>io.ReadFull\<close>: read until \<open>k\<close> more bytes have come or a \<open>Read\<close> fails. An error that
  arrives with the last needed byte is dropped; an \<open>io.EOF\<close> after some bytes is
  \<open>io.ErrUnexpectedEOF\<close>.\<close>

fun read_full :: "nat \<Rightarrow> byte list \<Rightarrow> reader \<Rightarrow> go_error option \<times> byte list \<times> reader" where
  "read_full 0 acc r = (None, acc, r)"
| "read_full (Suc k) acc [] =
     (Some (Sentinel (if acc = [] then EOF else ErrUnexpectedEOF)), acc, [])"
| "read_full (Suc k) acc ((bs, e) # r) =
     (if length bs > Suc k then (None, acc @ take (Suc k) bs, (drop (Suc k) bs, e) # r)
      else if length bs = Suc k then (None, acc @ bs, r)
      else case e of
             None \<Rightarrow> read_full (Suc k - length bs) (acc @ bs) r
           | Some err \<Rightarrow>
               (Some (if err = Sentinel EOF \<and> acc @ bs \<noteq> [] then Sentinel ErrUnexpectedEOF
                      else err), acc @ bs, r))"



text \<open>What a reader still holds, and that \<open>ReadFull\<close> takes its next bytes and leaves the rest.\<close>

definition reader_bytes :: "reader \<Rightarrow> byte list" where
  "reader_bytes r = concat (map fst r)"

lemma reader_bytes_Cons [simp]: "reader_bytes ((bs, e) # r) = bs @ reader_bytes r"
  by (simp add: reader_bytes_def)

lemma read_full_next:
  "read_full k acc r = (None, bs, r') \<Longrightarrow>
     k \<le> length (reader_bytes r) \<and> bs = acc @ take k (reader_bytes r) \<and>
     reader_bytes r' = drop k (reader_bytes r)"
proof (induction k acc r rule: read_full.induct)
  case (3 k acc bs e r)
  show ?case
  proof (cases "length bs < Suc k")
    case True
    with 3(2) have "e = None" by (auto split: option.splits)
    with 3 True show ?thesis by auto
  qed (use 3(2) in \<open>auto split: if_splits\<close>)
qed simp_all

lemma read_full_bytes [simp]:
  "length bs = k \<Longrightarrow> 0 < k \<Longrightarrow> read_full k [] ((bs, e) # r) = (None, bs, r)"
  by (cases k) auto

end
