(* ===== verification/Enrollment.thy ===== *)
theory Enrollment
  imports Protocol Go_Encoding
begin

text \<open>
  \<^verbatim>\<open>server/internal/enrollment/service.go\<close>: validation and normalisation of the metadata an agent
  sends, the random credential, and \<open>Enroll\<close> over the store interface. The service's state is its
  random source; the store is a record of operations over a state of its own, so the operation
  takes and returns both.
\<close>

section \<open>Data\<close>

definition credential_bytes :: nat where "credential_bytes = 32"
definition max_hostname :: nat where "max_hostname = 255"
definition max_metadata_value :: nat where "max_metadata_value = 255"
definition max_capabilities :: nat where "max_capabilities = 32"
definition max_capability :: nat where "max_capability = 64"

lemmas limits = credential_bytes_def max_hostname_def max_metadata_value_def
  max_capabilities_def max_capability_def

record input =
  in_hostname :: string
  in_operating_system :: string
  in_os_version :: string
  in_architecture :: string
  in_agent_version :: string
  in_capabilities :: "string list"

record enrolled_agent =
  ea_machine_id :: string
  ea_agent_id :: string
  ea_secret :: string

record stored_enrollment =
  se_credential_hash :: "byte list"
  se_hostname :: string
  se_operating_system :: string
  se_os_version :: string
  se_architecture :: string
  se_agent_version :: string
  se_capabilities :: "string list"

record 's enrollment_store =
  store_enroll :: "ctx \<Rightarrow> stored_enrollment \<Rightarrow> 's \<Rightarrow> (go_error + string \<times> string) \<times> 's"

section \<open>Operations\<close>

fun decimal :: "nat \<Rightarrow> string" where
  "decimal n = (if n < 10 then [char_of (48 + n)] else decimal (n div 10) @ [char_of (48 + n mod 10)])"

declare decimal.simps [simp del]

definition invalid_input :: "string \<Rightarrow> go_error" where
  "invalid_input text = Errorf '''' (Sentinel ErrInvalidInput) text"

definition required_metadata :: "string \<Rightarrow> string \<Rightarrow> nat \<Rightarrow> go_error + string" where
  "required_metadata name value maximum =
     (let value = trim_space value
      in if value = '''' \<or> length value > maximum
         then Inl (invalid_input ('': '' @ name @ '' must be between 1 and '' @ decimal maximum
                                  @ '' characters''))
         else Inr value)"

fun capability_loop ::
  "string list \<Rightarrow> string set \<Rightarrow> string list \<Rightarrow> go_error + string list" where
  "capability_loop [] seen acc = Inr acc"
| "capability_loop (c # cs) seen acc =
     (let c = trim_space c
      in if c = '''' \<or> length c > max_capability
         then Inl (invalid_input ('': capability must be between 1 and ''
                                  @ decimal max_capability @ '' characters''))
         else if c \<in> seen then capability_loop cs seen acc
         else capability_loop cs (insert c seen) (acc @ [c]))"

definition validate_input :: "input \<Rightarrow> go_error + input" where
  "validate_input input =
     (case required_metadata ''hostname'' (in_hostname input) max_hostname of
        Inl e \<Rightarrow> Inl e
      | Inr hostname \<Rightarrow>
     (case required_metadata ''operating system'' (in_operating_system input) max_metadata_value of
        Inl e \<Rightarrow> Inl e
      | Inr operating_system \<Rightarrow>
     (case required_metadata ''OS version'' (in_os_version input) max_metadata_value of
        Inl e \<Rightarrow> Inl e
      | Inr os_version \<Rightarrow>
     (case required_metadata ''architecture'' (in_architecture input) max_metadata_value of
        Inl e \<Rightarrow> Inl e
      | Inr architecture \<Rightarrow>
     (case required_metadata ''agent version'' (in_agent_version input) max_metadata_value of
        Inl e \<Rightarrow> Inl e
      | Inr agent_version \<Rightarrow>
        if length (in_capabilities input) > max_capabilities
        then Inl (invalid_input '': too many capabilities'')
        else
     (case capability_loop (in_capabilities input) {} [] of
        Inl e \<Rightarrow> Inl e
      | Inr capabilities \<Rightarrow>
          Inr \<lparr>in_hostname = hostname, in_operating_system = operating_system,
               in_os_version = os_version, in_architecture = architecture,
               in_agent_version = agent_version, in_capabilities = capabilities\<rparr>))))))"

definition random_credential :: "reader \<Rightarrow> (go_error + string) \<times> reader" where
  "random_credential random =
     (case read_full credential_bytes [] random of
        (Some e, _, random') \<Rightarrow> (Inl e, random')
      | (None, bs, random') \<Rightarrow> (Inr (b64_encode bs), random'))"

definition stored_of :: "input \<Rightarrow> byte list \<Rightarrow> stored_enrollment" where
  "stored_of input hash =
     \<lparr>se_credential_hash = hash, se_hostname = in_hostname input,
      se_operating_system = in_operating_system input, se_os_version = in_os_version input,
      se_architecture = in_architecture input, se_agent_version = in_agent_version input,
      se_capabilities = in_capabilities input\<rparr>"

definition enroll ::
  "'s enrollment_store \<Rightarrow> ctx \<Rightarrow> input \<Rightarrow> reader \<times> 's
     \<Rightarrow> (go_error + enrolled_agent) \<times> reader \<times> 's" where
  "enroll store c input = (\<lambda>(random, s).
     (case validate_input input of
        Inl e \<Rightarrow> (Inl e, random, s)
      | Inr input \<Rightarrow>
     (case random_credential random of
        (Inl e, random') \<Rightarrow> (Inl (wrap_error ''generate agent credential: '' e), random', s)
      | (Inr secret, random') \<Rightarrow>
          let hash = sha256 (string_bytes secret)
          in (case store_enroll store c (stored_of input hash) s of
                (Inl e, s') \<Rightarrow> (Inl e, random', s')
              | (Inr (machine_id, agent_id), s') \<Rightarrow>
                  (Inr \<lparr>ea_machine_id = machine_id, ea_agent_id = agent_id, ea_secret = secret\<rparr>,
                   random', s')))))"

section \<open>What validation accepts and returns\<close>

text \<open>The specification: which inputs are acceptable, and their normal form (trimmed fields;
  trimmed capabilities, each at its first occurrence).\<close>

definition metadata_ok :: "nat \<Rightarrow> string \<Rightarrow> bool" where
  "metadata_ok maximum value \<longleftrightarrow>
     trim_space value \<noteq> '''' \<and> length (trim_space value) \<le> maximum"

definition acceptable_input :: "input \<Rightarrow> bool" where
  "acceptable_input i \<longleftrightarrow>
     metadata_ok 255 (in_hostname i) \<and> metadata_ok 255 (in_operating_system i) \<and>
     metadata_ok 255 (in_os_version i) \<and> metadata_ok 255 (in_architecture i) \<and>
     metadata_ok 255 (in_agent_version i) \<and>
     length (in_capabilities i) \<le> 32 \<and> (\<forall>c \<in> set (in_capabilities i). metadata_ok 64 c)"

definition first_occurrences :: "'a list \<Rightarrow> 'a list" where
  "first_occurrences xs = rev (remdups (rev xs))"

definition normal_input :: "input \<Rightarrow> input" where
  "normal_input i =
     \<lparr>in_hostname = trim_space (in_hostname i),
      in_operating_system = trim_space (in_operating_system i),
      in_os_version = trim_space (in_os_version i),
      in_architecture = trim_space (in_architecture i),
      in_agent_version = trim_space (in_agent_version i),
      in_capabilities = first_occurrences (map trim_space (in_capabilities i))\<rparr>"

lemma set_first_occurrences [simp]: "set (first_occurrences xs) = set xs"
  by (simp add: first_occurrences_def)

lemma distinct_first_occurrences [simp]: "distinct (first_occurrences xs)"
  by (simp add: first_occurrences_def)

lemma first_occurrences_distinct: "distinct xs \<Longrightarrow> first_occurrences xs = xs"
  by (simp add: first_occurrences_def distinct_remdups_id)

lemma length_first_occurrences: "length (first_occurrences xs) \<le> length xs"
  using length_remdups_leq [of "rev xs"] by (simp add: first_occurrences_def)

lemma remdups_drop_early: "c \<in> set ys \<Longrightarrow> remdups (xs @ c # ys) = remdups (xs @ ys)"
  by (induction xs) auto

lemma first_occurrences_skip:
  "c \<in> set acc \<Longrightarrow> first_occurrences (acc @ c # xs) = first_occurrences (acc @ xs)"
  by (simp add: first_occurrences_def remdups_drop_early)

lemma errors_is_invalid_input [simp]: "errors_is (invalid_input t) ErrInvalidInput"
  by (simp add: invalid_input_def)

lemma required_metadata_cases:
  "required_metadata name v m
     = (if metadata_ok m v then Inr (trim_space v)
        else Inl (invalid_input ('': '' @ name @ '' must be between 1 and '' @ decimal m
                                 @ '' characters'')))"
  by (auto simp: required_metadata_def metadata_ok_def Let_def)

lemma capability_loop_ok:
  "distinct acc \<Longrightarrow> \<forall>c \<in> set cs. metadata_ok 64 c \<Longrightarrow>
     capability_loop cs (set acc) acc = Inr (first_occurrences (acc @ map trim_space cs))"
proof (induction cs arbitrary: acc)
  case Nil
  then show ?case by (simp add: first_occurrences_distinct)
next
  case (Cons c cs)
  then have "capability_loop cs (set (acc @ [trim_space c])) (acc @ [trim_space c])
      = Inr (first_occurrences (acc @ trim_space c # map trim_space cs))"
    if "trim_space c \<notin> set acc"
    using that Cons.IH [of "acc @ [trim_space c]"] by simp
  with Cons show ?case
    by (auto simp: Let_def metadata_ok_def max_capability_def first_occurrences_skip)
qed

lemma capability_loop_bad:
  "\<not> (\<forall>c \<in> set cs. metadata_ok 64 c) \<Longrightarrow>
     \<exists>e. capability_loop cs seen acc = Inl e \<and> errors_is e ErrInvalidInput"
  by (induction cs seen acc rule: capability_loop.induct)
     (auto simp: Let_def metadata_ok_def max_capability_def)

lemma validate_input_ok: "acceptable_input i \<Longrightarrow> validate_input i = Inr (normal_input i)"
  using capability_loop_ok [of "[]" "in_capabilities i"]
  by (simp add: validate_input_def required_metadata_cases acceptable_input_def limits
      normal_input_def)

lemma validate_input_bad:
  "\<not> acceptable_input i \<Longrightarrow> \<exists>e. validate_input i = Inl e \<and> errors_is e ErrInvalidInput"
proof (cases "\<forall>c \<in> set (in_capabilities i). metadata_ok 64 c")
  case True
  assume "\<not> acceptable_input i"
  with True show ?thesis
    by (auto simp: validate_input_def required_metadata_cases acceptable_input_def limits)
next
  case False
  then obtain e where "capability_loop (in_capabilities i) {} [] = Inl e" "errors_is e ErrInvalidInput"
    using capability_loop_bad by blast
  then show ?thesis
    by (simp add: validate_input_def required_metadata_cases limits del: append.simps)
qed

lemma normal_input_acceptable:
  assumes "acceptable_input i" shows "acceptable_input (normal_input i)"
proof -
  have "length (first_occurrences (map trim_space (in_capabilities i)))
          \<le> length (in_capabilities i)"
    using length_first_occurrences [of "map trim_space (in_capabilities i)"] by simp
  with assms show ?thesis
    by (auto simp: acceptable_input_def normal_input_def metadata_ok_def)
qed

lemma normal_input_idem: "normal_input (normal_input i) = normal_input i"
proof -
  have "map trim_space (first_occurrences (map trim_space cs))
          = first_occurrences (map trim_space cs)" for cs
    by (rule map_idI) auto
  then show ?thesis
    by (simp add: normal_input_def first_occurrences_distinct)
qed

section \<open>The credential\<close>

lemma random_credential_ok:
  "random_credential r = (Inr secret, r') \<Longrightarrow>
     32 \<le> length (reader_bytes r) \<and> secret = b64_encode (take 32 (reader_bytes r)) \<and>
     length secret = 43 \<and> reader_bytes r' = drop 32 (reader_bytes r)"
  by (fastforce simp: random_credential_def credential_bytes_def length_b64_encode
      split: prod.splits option.splits dest: read_full_next)

lemma random_credential_bytes:
  "length bs = 32 \<Longrightarrow> random_credential ((bs, e) # r) = (Inr (b64_encode bs), r)"
  by (simp add: random_credential_def credential_bytes_def)

lemma enroll_error_input:
  assumes "validate_input i = Inl e"
  shows "enroll store c i (r, s) = (Inl e, r, s)"
  using assms by (simp add: enroll_def)

lemma enroll_ok:
  assumes "enroll store c i (r, s) = (Inr a, r', s')"
  obtains "32 \<le> length (reader_bytes r)" "ea_secret a = b64_encode (take 32 (reader_bytes r))"
    "reader_bytes r' = drop 32 (reader_bytes r)" "length (ea_secret a) = 43"
    "acceptable_input i"
    "store_enroll store c (stored_of (normal_input i) (sha256 (string_bytes (ea_secret a)))) s
       = (Inr (ea_machine_id a, ea_agent_id a), s')"
proof -
  from assms obtain j where j: "validate_input i = Inr j"
    by (cases "validate_input i") (simp_all add: enroll_def)
  then have i: "acceptable_input i" "j = normal_input i"
    using validate_input_ok [of i] validate_input_bad [of i] by auto
  from assms j obtain secret where secret: "random_credential r = (Inr secret, r')"
    by (cases "random_credential r" rule: prod.exhaust)
       (auto simp: enroll_def Let_def split: sum.splits prod.splits)
  from assms j secret have "ea_secret a = secret"
    "store_enroll store c (stored_of j (sha256 (string_bytes secret))) s
       = (Inr (ea_machine_id a, ea_agent_id a), s')"
    by (auto simp: enroll_def Let_def split: sum.splits prod.splits)
  with random_credential_ok [OF secret] i that show thesis by auto
qed

section \<open>The contract of the store\<close>

text \<open>
  The store keeps active identities: an agent id leads to its machine and credential digest. An
  enrollment adds one under an id that had none and leaves the others alone, also when it reports
  a failure. \<open>key\<close> reads an id as printed.
\<close>

locale enrollment_contract =
  fixes store :: "'s enrollment_store"
    and identities :: "'s \<Rightarrow> 'k \<rightharpoonup> 'k \<times> byte list"
    and key :: "string \<Rightarrow> 'k option"
    and ok :: "'s \<Rightarrow> bool"
  assumes enroll_adds: "ok s \<Longrightarrow> store_enroll store c se s = (Inr (m, a), s') \<Longrightarrow>
      \<exists>km ka. key m = Some km \<and> key a = Some ka \<and> identities s ka = None \<and>
        identities s' = (identities s)(ka \<mapsto> (km, se_credential_hash se))"
    and enroll_error: "ok s \<Longrightarrow> store_enroll store c se s = (Inl e, s') \<Longrightarrow>
      identities s' = identities s \<or>
      (\<exists>km ka. identities s ka = None \<and>
         identities s' = (identities s)(ka \<mapsto> (km, se_credential_hash se)))"
    and enroll_keeps_ok: "ok s \<Longrightarrow> store_enroll store c se s = (r, s') \<Longrightarrow> ok s'"
begin

text \<open>Nobody's identity is lost or changed by an enrollment, whatever its outcome.\<close>

lemma enroll_preserves:
  assumes "ok s" "enroll store c i (r, s) = (res, r', s')" "identities s k = Some x"
  shows "identities s' k = Some x"
proof (cases "validate_input i")
  case (Inl e)
  with assms show ?thesis by (simp add: enroll_def)
next
  case (Inr j)
  show ?thesis
  proof (cases "random_credential r")
    case (Pair cred r1)
    show ?thesis
    proof (cases cred)
      case (Inl e)
      with assms Inr Pair show ?thesis by (simp add: enroll_def)
    next
      case cred: (Inr secret)
      obtain out s1 where out: "store_enroll store c (stored_of j (sha256 (string_bytes secret))) s
          = (out, s1)" by force
      with assms(2) Inr Pair cred have "s' = s1"
        by (auto simp: enroll_def Let_def split: sum.splits)
      with out enroll_adds [OF assms(1)] enroll_error [OF assms(1)] assms(3) show ?thesis
        by (cases out) (fastforce split: if_splits)+
    qed
  qed
qed

text \<open>After a successful enrollment the store knows the digest of the secret that was handed out.\<close>

lemma enroll_registers:
  assumes "ok s" "enroll store c i (r, s) = (Inr a, r', s')"
  shows "\<exists>km ka. key (ea_machine_id a) = Some km \<and> key (ea_agent_id a) = Some ka \<and>
    identities s ka = None \<and>
    identities s' ka = Some (km, sha256 (string_bytes (ea_secret a)))"
  using assms(2)
proof (rule enroll_ok)
  assume "store_enroll store c (stored_of (normal_input i) (sha256 (string_bytes (ea_secret a)))) s
      = (Inr (ea_machine_id a, ea_agent_id a), s')"
  from enroll_adds [OF assms(1) this] show ?thesis by (auto simp: stored_of_def)
qed

end

section \<open>Properties\<close>

text \<open>C21: \<open>validateInput\<close> accepts exactly the inputs whose five metadata fields are non-blank and
  at most 255 bytes after trimming, with at most 32 capabilities of 1 to 64 bytes after trimming;
  it then returns their normal form, and every rejection wraps \<open>ErrInvalidInput\<close>.\<close>

theorem validate_input_correct:
  "case validate_input i of
     Inr j \<Rightarrow> acceptable_input i \<and> j = normal_input i
   | Inl e \<Rightarrow> \<not> acceptable_input i \<and> errors_is e ErrInvalidInput"
  using validate_input_ok [of i] validate_input_bad [of i]
  by (cases "acceptable_input i") auto

text \<open>An input that validation rejects reaches neither the random source nor the store: both
  are returned as they were, with an error that \<open>errors.Is\<close> reports as \<open>ErrInvalidInput\<close>.\<close>

theorem enroll_rejects_untouched:
  assumes "\<not> acceptable_input i"
  shows "\<exists>e. enroll store c i (r, s) = (Inl e, r, s) \<and> errors_is e ErrInvalidInput"
  using validate_input_bad [OF assms] by (auto simp: enroll_error_input)

text \<open>C27: a successful enrollment hands the caller the base64 form (43 characters) of the next 32
  bytes of the random source, which are used up, passes the store the SHA-256 digest of that secret
  with the normal form of the metadata, and returns the identifiers the store gave. When the source
  has fewer bytes than that left, there is no success.\<close>

theorem enroll_issues_credential:
  assumes "enroll store c i (r, s) = (Inr a, r', s')"
  shows "acceptable_input i \<and> length (ea_secret a) = 43 \<and>
    32 \<le> length (reader_bytes r) \<and> ea_secret a = b64_encode (take 32 (reader_bytes r)) \<and>
    reader_bytes r' = drop 32 (reader_bytes r) \<and>
    store_enroll store c (stored_of (normal_input i) (sha256 (string_bytes (ea_secret a)))) s
      = (Inr (ea_machine_id a, ea_agent_id a), s')"
  using assms by (rule enroll_ok) auto

section \<open>Witnesses\<close>

definition demo_input :: input where
  "demo_input = \<lparr>in_hostname = ''host'', in_operating_system = ''linux'', in_os_version = ''6'',
     in_architecture = ''amd64'', in_agent_version = ''1'', in_capabilities = [''cpu'']\<rparr>"

definition demo_store :: "unit enrollment_store" where
  "demo_store = \<lparr>store_enroll = (\<lambda>c se s. (Inr (''machine'', ''agent''), s))\<rparr>"

lemma demo_trim [simp]:
  "trim_space ''host'' = ''host''" "trim_space ''linux'' = ''linux''" "trim_space ''6'' = ''6''"
  "trim_space ''amd64'' = ''amd64''" "trim_space ''1'' = ''1''" "trim_space ''cpu'' = ''cpu''"
  by (rule trim_space_alphabet, simp add: url_alphabet_def)+

lemma demo_input_acceptable: "acceptable_input demo_input"
  by (simp add: acceptable_input_def demo_input_def metadata_ok_def)

lemma demo_input_normal: "normal_input demo_input = demo_input"
  by (simp add: normal_input_def demo_input_def first_occurrences_def)

theorem enroll_rejects_untouched_witness:
  "\<not> acceptable_input (demo_input\<lparr>in_hostname := ''''\<rparr>) \<and>
   (\<exists>e. enroll demo_store background (demo_input\<lparr>in_hostname := ''''\<rparr>) ([], ()) = (Inl e, [], ()) \<and>
      errors_is e ErrInvalidInput)"
proof -
  have "\<not> acceptable_input (demo_input\<lparr>in_hostname := ''''\<rparr>)"
    by (simp add: acceptable_input_def demo_input_def metadata_ok_def)
  then show ?thesis using enroll_rejects_untouched [of _ demo_store background "[]" "()"] by simp
qed

theorem enroll_issues_credential_witness:
  "\<exists>a. enroll demo_store background demo_input ([(replicate 32 7, None)], ()) = (Inr a, [], ()) \<and>
     ea_secret a = b64_encode (replicate 32 7) \<and> length (ea_secret a) = 43 \<and>
     ea_machine_id a = ''machine'' \<and> ea_agent_id a = ''agent''"
proof -
  have "\<exists>a. enroll demo_store background demo_input ([(replicate 32 7, None)], ()) = (Inr a, [], ())"
    by (simp add: enroll_def validate_input_ok [OF demo_input_acceptable] demo_input_normal
        random_credential_bytes demo_store_def Let_def)
  then show ?thesis
    using enroll_issues_credential [of demo_store background demo_input "[(replicate 32 7, None)]" "()"]
    by (fastforce simp: demo_store_def)
qed

end
