(* ===== verification/Presence.thy ===== *)
theory Presence
  imports Protocol Go_Encoding
begin

text \<open>
  \<^verbatim>\<open>server/internal/presence/service.go\<close>: authentication of an agent stream and the life of its
  session, over the store interface (a record of operations). The contract the service relies on
  is the locale \<open>presence_contract\<close>: a view of the store that says, per machine, whether it is
  online and when its latest session started, and what each operation does to that view. The
  client lemmas about superseded sessions are proved once from it.
\<close>

section \<open>Data and the store interface\<close>

record credentials =
  cred_agent_id :: string
  cred_secret :: string

record identity =
  id_machine_id :: string
  id_agent_id :: string
  id_credential_hash :: "byte list"

record session =
  sess_machine_id :: string
  sess_agent_id :: string
  sess_connected_at :: go_time

record 's presence_store =
  find_active_identity :: "ctx \<Rightarrow> string \<Rightarrow> 's \<Rightarrow> (go_error + identity option) \<times> 's"
  start_session :: "ctx \<Rightarrow> string \<Rightarrow> 's \<Rightarrow> (go_error + go_time) \<times> 's"
  touch_session :: "ctx \<Rightarrow> session \<Rightarrow> 's \<Rightarrow> go_error option \<times> 's"
  end_session :: "ctx \<Rightarrow> session \<Rightarrow> 's \<Rightarrow> go_error option \<times> 's"

section \<open>Operations\<close>

definition is_uuid :: "externals \<Rightarrow> string \<Rightarrow> bool" where
  "is_uuid ext s \<longleftrightarrow> ext_uuid_valid ext s"

definition open_session ::
  "externals \<Rightarrow> 's presence_store \<Rightarrow> ctx \<Rightarrow> credentials \<Rightarrow> 's \<Rightarrow> (go_error + session) \<times> 's" where
  "open_session ext store c creds s =
     (if \<not> is_uuid ext (cred_agent_id creds) then (Inl (Sentinel ErrUnauthenticated), s)
      else if trim_space (cred_secret creds) = '''' then (Inl (Sentinel ErrUnauthenticated), s)
      else case find_active_identity store c (cred_agent_id creds) s of
        (Inl e, s) \<Rightarrow> (Inl (wrap_error ''find active identity: '' e), s)
      | (Inr None, s) \<Rightarrow> (Inl (Sentinel ErrUnauthenticated), s)
      | (Inr (Some identity), s) \<Rightarrow>
          let secret_hash = sha256 (string_bytes (cred_secret creds))
          in if \<not> hmac_equal secret_hash (id_credential_hash identity)
             then (Inl (Sentinel ErrUnauthenticated), s)
             else case start_session store c (id_machine_id identity) s of
                    (Inl e, s) \<Rightarrow> (Inl (wrap_error ''start presence session: '' e), s)
                  | (Inr connection_time, s) \<Rightarrow>
                      (Inr \<lparr>sess_machine_id = id_machine_id identity,
                            sess_agent_id = id_agent_id identity,
                            sess_connected_at = connection_time\<rparr>, s))"

definition record_activity ::
  "'s presence_store \<Rightarrow> ctx \<Rightarrow> session \<Rightarrow> 's \<Rightarrow> go_error option \<times> 's" where
  "record_activity store c session s =
     (case touch_session store c session s of
        (Some e, s) \<Rightarrow> (Some (wrap_error ''record agent activity: '' e), s)
      | (None, s) \<Rightarrow> (None, s))"

definition close_session ::
  "'s presence_store \<Rightarrow> ctx \<Rightarrow> session \<Rightarrow> 's \<Rightarrow> go_error option \<times> 's" where
  "close_session store c session s =
     (case end_session store c session s of
        (Some e, s) \<Rightarrow> (Some (wrap_error ''end presence session: '' e), s)
      | (None, s) \<Rightarrow> (None, s))"

section \<open>Facts that hold over any store\<close>

text \<open>The checks before the lookup.\<close>

definition presentable :: "externals \<Rightarrow> credentials \<Rightarrow> bool" where
  "presentable ext creds \<longleftrightarrow>
     ext_uuid_valid ext (cred_agent_id creds) \<and> trim_space (cred_secret creds) \<noteq> ''''"

lemma open_session_unpresentable:
  "\<not> presentable ext creds \<Longrightarrow> open_session ext store c creds s = (Inl (Sentinel ErrUnauthenticated), s)"
  by (auto simp: open_session_def presentable_def is_uuid_def)

lemma open_session_ok:
  assumes "open_session ext store c creds s = (Inr sess, s'')"
  obtains ident s' where "presentable ext creds"
    "find_active_identity store c (cred_agent_id creds) s = (Inr (Some ident), s')"
    "id_credential_hash ident = sha256 (string_bytes (cred_secret creds))"
    "start_session store c (id_machine_id ident) s' = (Inr (sess_connected_at sess), s'')"
    "sess_machine_id sess = id_machine_id ident" "sess_agent_id sess = id_agent_id ident"
  using assms
  by (auto simp: open_session_def presentable_def is_uuid_def Let_def
      split: if_splits prod.splits sum.splits option.splits)

lemma open_session_accepts:
  assumes "presentable ext creds"
    and "find_active_identity store c (cred_agent_id creds) s = (Inr (Some ident), s')"
    and "id_credential_hash ident = sha256 (string_bytes (cred_secret creds))"
  shows "open_session ext store c creds s =
    (case start_session store c (id_machine_id ident) s' of
       (Inl e, s'') \<Rightarrow> (Inl (wrap_error ''start presence session: '' e), s'')
     | (Inr t, s'') \<Rightarrow> (Inr \<lparr>sess_machine_id = id_machine_id ident,
                            sess_agent_id = id_agent_id ident, sess_connected_at = t\<rparr>, s''))"
  using assms by (auto simp: open_session_def presentable_def is_uuid_def Let_def)

lemma open_session_error_cases:
  assumes "open_session ext store c creds s = (Inl e, s'')"
  obtains
    (unpresentable) "\<not> presentable ext creds" "s'' = s" "e = Sentinel ErrUnauthenticated"
  | (lookup) e' where "find_active_identity store c (cred_agent_id creds) s = (Inl e', s'')"
      "e = wrap_error ''find active identity: '' e'"
  | (unknown) "find_active_identity store c (cred_agent_id creds) s = (Inr None, s'')"
      "e = Sentinel ErrUnauthenticated"
  | (mismatch) ident where
      "find_active_identity store c (cred_agent_id creds) s = (Inr (Some ident), s'')"
      "id_credential_hash ident \<noteq> sha256 (string_bytes (cred_secret creds))"
      "e = Sentinel ErrUnauthenticated"
  | (start) ident s' e' where
      "find_active_identity store c (cred_agent_id creds) s = (Inr (Some ident), s')"
      "start_session store c (id_machine_id ident) s' = (Inl e', s'')"
      "e = wrap_error ''start presence session: '' e'"
  using assms
  by (auto simp: open_session_def presentable_def is_uuid_def Let_def
      split: if_splits prod.splits sum.splits option.splits)

text \<open>C18: \<open>OpenSession\<close> answers \<open>ErrUnauthenticated\<close> on its own account exactly when the agent id
  is malformed, the secret is blank, no active identity is found or the digest of the secret is
  not the stored one; it opens a session only for a secret whose SHA-256 digest is the stored
  hash, and the session carries the identity's machine and agent and the time the store gave.\<close>

theorem open_session_authenticates:
  "case open_session ext store c creds s of
     (Inr sess, s'') \<Rightarrow>
       presentable ext creds \<and>
       (\<exists>ident s'. find_active_identity store c (cred_agent_id creds) s = (Inr (Some ident), s') \<and>
          id_credential_hash ident = sha256 (string_bytes (cred_secret creds)) \<and>
          start_session store c (id_machine_id ident) s' = (Inr (sess_connected_at sess), s'') \<and>
          sess_machine_id sess = id_machine_id ident \<and> sess_agent_id sess = id_agent_id ident)
   | (Inl e, s'') \<Rightarrow>
       e = Sentinel ErrUnauthenticated \<and>
         (\<not> presentable ext creds \<and> s'' = s \<or>
          find_active_identity store c (cred_agent_id creds) s = (Inr None, s'') \<or>
          (\<exists>ident. find_active_identity store c (cred_agent_id creds) s = (Inr (Some ident), s'') \<and>
             id_credential_hash ident \<noteq> sha256 (string_bytes (cred_secret creds)))) \<or>
       (\<exists>e'. find_active_identity store c (cred_agent_id creds) s = (Inl e', s'') \<and>
          e = wrap_error ''find active identity: '' e') \<or>
       (\<exists>ident s' e'. find_active_identity store c (cred_agent_id creds) s = (Inr (Some ident), s') \<and>
          start_session store c (id_machine_id ident) s' = (Inl e', s'') \<and>
          e = wrap_error ''start presence session: '' e')"
proof (cases "open_session ext store c creds s")
  case (Pair r s'')
  show ?thesis
  proof (cases r)
    case (Inl e)
    with Pair have "open_session ext store c creds s = (Inl e, s'')" by simp
    then show ?thesis using Pair Inl
      by (cases rule: open_session_error_cases) auto
  next
    case (Inr sess)
    with Pair have "open_session ext store c creds s = (Inr sess, s'')" by simp
    then show ?thesis using Pair Inr by (elim open_session_ok) auto
  qed
qed

section \<open>The contract of the store\<close>

text \<open>
  A view maps a machine to whether it is online and to the stamp of its latest session.
  \<open>started\<close> and \<open>ended\<close> are what a session start and a session end do to it; an end acts only on
  the session that is still the latest one.
\<close>

type_synonym 'k view = "'k \<rightharpoonup> bool \<times> int option"

definition started :: "'k \<Rightarrow> int \<Rightarrow> 'k view \<Rightarrow> 'k view" where
  "started k t v = v(k \<mapsto> (True, Some t))"

definition ended :: "'k \<Rightarrow> int \<Rightarrow> 'k view \<Rightarrow> 'k view" where
  "ended k t v = (if v k = Some (True, Some t) then v(k \<mapsto> (False, Some t)) else v)"

definition fresh_stamp :: "int \<Rightarrow> 'k view \<Rightarrow> bool" where
  "fresh_stamp t v \<longleftrightarrow> (\<forall>k b t'. v k = Some (b, Some t') \<longrightarrow> t' < t)"

text \<open>The same for one machine only: later than every connection of it so far.\<close>

definition newer_stamp :: "'k \<Rightarrow> int \<Rightarrow> 'k view \<Rightarrow> bool" where
  "newer_stamp k t v \<longleftrightarrow> (\<forall>b t'. v k = Some (b, Some t') \<longrightarrow> t' < t)"

lemma fresh_newer: "fresh_stamp t v \<Longrightarrow> newer_stamp k t v"
  by (auto simp: fresh_stamp_def newer_stamp_def)

datatype presence_op =
    Op_Open ctx credentials
  | Op_Activity ctx session
  | Op_Close ctx session

fun presence_run :: "externals \<Rightarrow> 's presence_store \<Rightarrow> presence_op list \<Rightarrow> 's \<Rightarrow> 's" where
  "presence_run ext store [] s = s"
| "presence_run ext store (Op_Open c creds # ops) s =
     presence_run ext store ops (snd (open_session ext store c creds s))"
| "presence_run ext store (Op_Activity c sess # ops) s =
     presence_run ext store ops (snd (record_activity store c sess s))"
| "presence_run ext store (Op_Close c sess # ops) s =
     presence_run ext store ops (snd (close_session store c sess s))"

locale presence_contract =
  fixes store :: "'s presence_store"
    and view :: "'s \<Rightarrow> 'k view"
    and key :: "string \<Rightarrow> 'k option"
    and stamp :: "go_time \<Rightarrow> int"
    and ok :: "'s \<Rightarrow> bool"
  assumes find_view: "find_active_identity store c a s = (r, s') \<Longrightarrow> view s' = view s"
    and find_ok: "ok s \<Longrightarrow> find_active_identity store c a s = (r, s') \<Longrightarrow> ok s'"
    and start_view: "ok s \<Longrightarrow> start_session store c m s = (Inr t, s') \<Longrightarrow>
      \<exists>k. key m = Some k \<and> k \<in> dom (view s) \<and> fresh_stamp (stamp t) (view s)
        \<and> view s' = started k (stamp t) (view s)"
    and start_error: "ok s \<Longrightarrow> start_session store c m s = (Inl e, s') \<Longrightarrow>
      view s' = view s \<or> (\<exists>k t. key m = Some k \<and> k \<in> dom (view s) \<and> fresh_stamp t (view s)
        \<and> view s' = started k t (view s))"
    and start_ok: "ok s \<Longrightarrow> start_session store c m s = (started_at, s') \<Longrightarrow> ok s'"
    and touch_view: "touch_session store c sess s = (r', s') \<Longrightarrow> view s' = view s"
    and touch_ok: "ok s \<Longrightarrow> touch_session store c sess s = (r', s') \<Longrightarrow> ok s'"
    and end_view: "end_session store c sess s = (None, s') \<Longrightarrow>
      \<exists>k. key (sess_machine_id sess) = Some k
        \<and> view s' = ended k (stamp (sess_connected_at sess)) (view s)"
    and end_error: "end_session store c sess s = (Some e, s') \<Longrightarrow>
      view s' = view s \<or> (\<exists>k. key (sess_machine_id sess) = Some k
        \<and> view s' = ended k (stamp (sess_connected_at sess)) (view s))"
    and end_ok: "ok s \<Longrightarrow> end_session store c sess s = (r', s') \<Longrightarrow> ok s'"
begin

definition current :: "session \<Rightarrow> 's \<Rightarrow> bool" where
  "current sess s \<longleftrightarrow> (\<exists>k. key (sess_machine_id sess) = Some k
     \<and> view s k = Some (True, Some (stamp (sess_connected_at sess))))"

definition stale :: "session \<Rightarrow> 's \<Rightarrow> bool" where
  "stale sess s \<longleftrightarrow> (\<exists>k b t. key (sess_machine_id sess) = Some k
     \<and> view s k = Some (b, Some t) \<and> stamp (sess_connected_at sess) < t)"

lemma open_session_view:
  assumes "ok s" "open_session ext store c creds s = (Inr sess, s')"
  shows "\<exists>k. key (sess_machine_id sess) = Some k \<and> k \<in> dom (view s)
    \<and> fresh_stamp (stamp (sess_connected_at sess)) (view s)
    \<and> view s' = started k (stamp (sess_connected_at sess)) (view s)"
  using assms(2)
proof (rule open_session_ok)
  fix ident s1
  assume find: "find_active_identity store c (cred_agent_id creds) s = (Inr (Some ident), s1)"
    and start: "start_session store c (id_machine_id ident) s1 = (Inr (sess_connected_at sess), s')"
    and m: "sess_machine_id sess = id_machine_id ident"
  show ?thesis
    using start_view [OF find_ok [OF assms(1) find] start] find_view [OF find] m by simp
qed

lemma open_session_error_view:
  assumes "ok s" "open_session ext store c creds s = (Inl e, s')"
  shows "view s' = view s \<or> (\<exists>k t. k \<in> dom (view s) \<and> fresh_stamp t (view s)
    \<and> view s' = started k t (view s))"
  using assms(2)
proof (cases rule: open_session_error_cases)
  case (start ident s1 e')
  then show ?thesis
    using start_error [OF find_ok [OF assms(1) start(1)] start(2)] find_view [OF start(1)]
    by auto
qed (auto dest: find_view)

lemma open_session_keeps_ok:
  assumes "ok s" shows "ok (snd (open_session ext store c creds s))"
proof (cases "open_session ext store c creds s")
  case (Pair r s')
  show ?thesis
  proof (cases r)
    case (Inr sess)
    with Pair have "open_session ext store c creds s = (Inr sess, s')" by simp
    then show ?thesis using assms Pair
      by (elim open_session_ok) (auto intro: find_ok start_ok)
  next
    case (Inl e)
    with Pair have "open_session ext store c creds s = (Inl e, s')" by simp
    then show ?thesis using assms Pair
      by (cases rule: open_session_error_cases) (auto intro: find_ok start_ok)
  qed
qed

lemma record_activity_view [simp]: "view (snd (record_activity store c sess s)) = view s"
  by (auto simp: record_activity_def split: prod.split option.split dest: touch_view)

lemma record_activity_keeps_ok: "ok s \<Longrightarrow> ok (snd (record_activity store c sess s))"
  by (auto simp: record_activity_def split: prod.split option.split intro: touch_ok)

lemma close_session_view:
  "view (snd (close_session store c sess s)) = view s \<or>
   (\<exists>k. key (sess_machine_id sess) = Some k
      \<and> view (snd (close_session store c sess s))
          = ended k (stamp (sess_connected_at sess)) (view s))"
  by (cases "end_session store c sess s" rule: prod.exhaust)
     (auto simp: close_session_def split: option.split dest: end_view end_error)

lemma close_session_ok_view:
  "close_session store c sess s = (None, s') \<Longrightarrow>
     \<exists>k. key (sess_machine_id sess) = Some k
       \<and> view s' = ended k (stamp (sess_connected_at sess)) (view s)"
  by (auto simp: close_session_def split: prod.splits option.splits dest: end_view)

lemma close_session_keeps_ok: "ok s \<Longrightarrow> ok (snd (close_session store c sess s))"
  by (auto simp: close_session_def split: prod.split option.split intro: end_ok)

text \<open>Closing the current session takes its machine offline; closing a stale one does nothing.\<close>

lemma close_current:
  assumes "current sess s" "close_session store c sess s = (None, s')"
  shows "\<exists>k. key (sess_machine_id sess) = Some k
    \<and> view s' = (view s)(k \<mapsto> (False, Some (stamp (sess_connected_at sess))))"
  using close_session_ok_view [OF assms(2)] assms(1) by (auto simp: current_def ended_def)

lemma close_stale:
  assumes "stale sess s"
  shows "view (snd (close_session store c sess s)) = view s"
  using close_session_view [of c sess s] assms by (auto simp: stale_def ended_def)

lemma stale_not_current: "stale sess s \<Longrightarrow> \<not> current sess s"
  by (auto simp: stale_def current_def)

text \<open>Once stale, a session stays stale whatever the service does next.\<close>

lemma stale_view:
  assumes "stale sess s"
    and "view s' = view s
         \<or> (\<exists>k t. fresh_stamp t (view s) \<and> view s' = started k t (view s))
         \<or> (\<exists>k t. view s' = ended k t (view s))"
  shows "stale sess s'"
proof -
  obtain k b t where st: "key (sess_machine_id sess) = Some k" "view s k = Some (b, Some t)"
    "stamp (sess_connected_at sess) < t"
    using assms(1) by (auto simp: stale_def)
  from assms(2) have "\<exists>b' t'. view s' k = Some (b', Some t') \<and> t \<le> t'"
  proof (elim disjE exE conjE)
    fix k' t' assume "fresh_stamp t' (view s)" "view s' = started k' t' (view s)"
    then show ?thesis using st(2)
      by (cases "k' = k") (auto simp: started_def fresh_stamp_def intro: less_imp_le)
  next
    fix k' t' assume "view s' = ended k' t' (view s)"
    then show ?thesis using st(2) by (cases "k' = k") (auto simp: ended_def)
  qed (use st(2) in auto)
  with st(1,3) show ?thesis by (fastforce simp: stale_def)
qed

lemma open_session_any_view:
  assumes "ok s"
  shows "view (snd (open_session ext store c creds s)) = view s
    \<or> (\<exists>k t. fresh_stamp t (view s) \<and> view (snd (open_session ext store c creds s)) = started k t (view s))"
proof (cases "open_session ext store c creds s")
  case (Pair r s')
  then show ?thesis
  proof (cases r)
    case (Inl e)
    with Pair show ?thesis using open_session_error_view [OF assms, of ext c creds e s'] by auto
  next
    case (Inr sess)
    with Pair show ?thesis using open_session_view [OF assms, of ext c creds sess s'] by auto
  qed
qed

lemma presence_run_stale:
  "ok s \<Longrightarrow> stale sess s \<Longrightarrow>
     ok (presence_run ext store ops s) \<and> stale sess (presence_run ext store ops s)"
proof (induction ops arbitrary: s)
  case (Cons op ops)
  show ?case
  proof (cases op)
    case (Op_Open c creds)
    have "stale sess (snd (open_session ext store c creds s))"
      by (rule stale_view [OF Cons.prems(2)])
         (use open_session_any_view [OF Cons.prems(1), of ext c creds] in blast)
    with Cons Op_Open show ?thesis by (simp add: open_session_keeps_ok)
  next
    case (Op_Activity c sess')
    with Cons show ?thesis
      by (simp add: record_activity_keeps_ok stale_view [OF Cons.prems(2)])
  next
    case (Op_Close c sess')
    have "stale sess (snd (close_session store c sess' s))"
      by (rule stale_view [OF Cons.prems(2)]) (use close_session_view [of c sess' s] in blast)
    with Cons Op_Close show ?thesis by (simp add: close_session_keeps_ok)
  qed
qed simp

text \<open>A session the store has seen: the latest session of its machine is not older.\<close>

definition seen :: "session \<Rightarrow> 's \<Rightarrow> bool" where
  "seen sess s \<longleftrightarrow> (\<exists>k b t. key (sess_machine_id sess) = Some k
     \<and> view s k = Some (b, Some t) \<and> stamp (sess_connected_at sess) \<le> t)"

lemma seen_view:
  assumes "seen sess s"
    and "view s' = view s
         \<or> (\<exists>k t. fresh_stamp t (view s) \<and> view s' = started k t (view s))
         \<or> (\<exists>k t. view s' = ended k t (view s))"
  shows "seen sess s'"
proof -
  obtain k b t where st: "key (sess_machine_id sess) = Some k" "view s k = Some (b, Some t)"
    "stamp (sess_connected_at sess) \<le> t"
    using assms(1) by (auto simp: seen_def)
  from assms(2) have "\<exists>b' t'. view s' k = Some (b', Some t') \<and> t \<le> t'"
    using st(2) by (fastforce simp: started_def fresh_stamp_def ended_def intro: less_imp_le)
  with st(1,3) show ?thesis by (fastforce simp: seen_def)
qed

lemma presence_run_seen:
  "ok s \<Longrightarrow> seen sess s \<Longrightarrow>
     ok (presence_run ext store ops s) \<and> seen sess (presence_run ext store ops s)"
proof (induction ops arbitrary: s)
  case (Cons op ops)
  note keep = seen_view [OF Cons.prems(2)]
  show ?case
  proof (cases op)
    case (Op_Open c creds)
    have "seen sess (snd (open_session ext store c creds s))"
      by (rule keep) (use open_session_any_view [OF Cons.prems(1), of ext c creds] in blast)
    with Cons Op_Open show ?thesis by (simp add: open_session_keeps_ok)
  next
    case (Op_Activity c sess')
    with Cons show ?thesis by (simp add: record_activity_keeps_ok keep)
  next
    case (Op_Close c sess')
    have "seen sess (snd (close_session store c sess' s))"
      by (rule keep) (use close_session_view [of c sess' s] in blast)
    with Cons Op_Close show ?thesis by (simp add: close_session_keeps_ok)
  qed
qed simp

lemma open_makes_stale:
  assumes "ok s" "seen sess s" "open_session ext store c creds s = (Inr sess', s')"
    and "key (sess_machine_id sess) = key (sess_machine_id sess')"
  shows "stale sess s'"
proof -
  obtain k where k: "key (sess_machine_id sess') = Some k"
    "fresh_stamp (stamp (sess_connected_at sess')) (view s)"
    "view s' = started k (stamp (sess_connected_at sess')) (view s)"
    using open_session_view [OF assms(1,3)] by blast
  have "stamp (sess_connected_at sess) < stamp (sess_connected_at sess')"
    using assms(2,4) k(1,2) by (fastforce simp: seen_def fresh_stamp_def)
  with k assms(4) show ?thesis by (auto simp: stale_def started_def)
qed

lemma open_session_current:
  assumes "ok s" "open_session ext store c creds s = (Inr sess, s')"
  shows "current sess s'"
  using open_session_view [OF assms] by (auto simp: current_def started_def)

text \<open>Once its machine has reconnected, an old session is stale for good, however the service is
  used before and after.\<close>

lemma superseded_stale:
  assumes "ok s" "open_session ext store c creds s = (Inr sess, s1)"
    and "open_session ext store c' creds' (presence_run ext store before s1) = (Inr sess', s2)"
    and "key (sess_machine_id sess) = key (sess_machine_id sess')"
  shows "ok (presence_run ext store after s2) \<and> stale sess (presence_run ext store after s2)"
proof -
  have "ok s1" using open_session_keeps_ok [OF assms(1), of ext c creds] assms(2) by simp
  moreover have "seen sess s1"
    using open_session_current [OF assms(1,2)] by (auto simp: current_def seen_def)
  ultimately have mid: "ok (presence_run ext store before s1)" "seen sess (presence_run ext store before s1)"
    using presence_run_seen by blast+
  have "ok s2" using open_session_keeps_ok [OF mid(1), of ext c' creds'] assms(3) by simp
  moreover have "stale sess s2" by (rule open_makes_stale [OF mid assms(3,4)])
  ultimately show ?thesis by (rule presence_run_stale)
qed

end

end
