(* ===== verification/Telemetry.thy ===== *)
theory Telemetry
  imports Protocol
begin

text \<open>
  \<^verbatim>\<open>server/internal/telemetry/service.go\<close>: the checks on a telemetry sample and \<open>Record\<close> over the
  store interface. Byte counts are \<open>int64\<close> read as two's complement, the CPU percentage is a
  \<open>float64\<close>.
\<close>

section \<open>Data and operations\<close>

record sample =
  smp_machine_id :: string
  smp_collected_at :: go_time
  smp_cpu_usage_percent :: float64
  smp_memory_total_bytes :: int64
  smp_memory_used_bytes :: int64
  smp_disk_total_bytes :: int64
  smp_disk_used_bytes :: int64
  smp_uptime_seconds :: int64

record 's telemetry_store =
  store_record :: "ctx \<Rightarrow> sample \<Rightarrow> 's \<Rightarrow> go_error option \<times> 's"

definition invalid_sample :: "string \<Rightarrow> go_error" where
  "invalid_sample text = Errorf '''' (Sentinel ErrInvalidSample) text"

definition validate_sample :: "sample \<Rightarrow> go_error option" where
  "validate_sample sample =
     (if trim_space (smp_machine_id sample) = ''''
      then Some (invalid_sample '': machine ID is required'')
      else if is_zero_time (smp_collected_at sample)
      then Some (invalid_sample '': collected at is required'')
      else if is_nan (smp_cpu_usage_percent sample) \<or> is_inf (smp_cpu_usage_percent sample)
        \<or> f64_less (smp_cpu_usage_percent sample) 0
        \<or> f64_less f64_hundred (smp_cpu_usage_percent sample)
      then Some (invalid_sample '': CPU usage percent must be between zero and 100'')
      else if sint (smp_memory_total_bytes sample) < 0
      then Some (invalid_sample '': memory total bytes must not be negative'')
      else if sint (smp_memory_used_bytes sample) < 0
        \<or> sint (smp_memory_used_bytes sample) > sint (smp_memory_total_bytes sample)
      then Some (invalid_sample '': memory used bytes must be between zero and memory total bytes'')
      else if sint (smp_disk_total_bytes sample) < 0
      then Some (invalid_sample '': disk total bytes must not be negative'')
      else if sint (smp_disk_used_bytes sample) < 0
        \<or> sint (smp_disk_used_bytes sample) > sint (smp_disk_total_bytes sample)
      then Some (invalid_sample '': disk used bytes must be between zero and disk total bytes'')
      else if sint (smp_uptime_seconds sample) < 0
      then Some (invalid_sample '': uptime seconds must not be negative'')
      else None)"

definition record_sample ::
  "'s telemetry_store \<Rightarrow> ctx \<Rightarrow> sample \<Rightarrow> 's \<Rightarrow> go_error option \<times> 's" where
  "record_sample store c sample s =
     (case validate_sample sample of
        Some e \<Rightarrow> (Some e, s)
      | None \<Rightarrow>
     (case store_record store c sample s of
        (Some e, s) \<Rightarrow> (Some (wrap_error ''record telemetry sample: '' e), s)
      | (None, s) \<Rightarrow> (None, s)))"

section \<open>What validation accepts\<close>

text \<open>The specification, on the values: the percentage is a number in \<open>[0, 100]\<close>, and used
  amounts lie between zero and the totals.\<close>

definition valid_sample :: "sample \<Rightarrow> bool" where
  "valid_sample x \<longleftrightarrow>
     trim_space (smp_machine_id x) \<noteq> '''' \<and> smp_collected_at x \<noteq> 0 \<and>
     f64_between_0_100 (smp_cpu_usage_percent x) \<and>
     0 \<le> sint (smp_memory_used_bytes x) \<and>
     sint (smp_memory_used_bytes x) \<le> sint (smp_memory_total_bytes x) \<and>
     0 \<le> sint (smp_disk_used_bytes x) \<and>
     sint (smp_disk_used_bytes x) \<le> sint (smp_disk_total_bytes x) \<and>
     0 \<le> sint (smp_uptime_seconds x)"

lemma validate_sample_None: "validate_sample x = None \<longleftrightarrow> valid_sample x"
  unfolding validate_sample_def cpu_check valid_sample_def is_zero_time_def
  by auto

lemma validate_sample_Some: "validate_sample x = Some e \<Longrightarrow> errors_is e ErrInvalidSample"
  by (auto simp: validate_sample_def invalid_sample_def split: if_splits)

lemma record_sample_valid:
  "valid_sample x \<Longrightarrow> record_sample store c x s =
     (case store_record store c x s of
        (Some e, s') \<Rightarrow> (Some (wrap_error ''record telemetry sample: '' e), s')
      | (None, s') \<Rightarrow> (None, s'))"
  by (simp add: record_sample_def flip: validate_sample_None)

lemma record_sample_invalid:
  "\<not> valid_sample x \<Longrightarrow> \<exists>e. record_sample store c x s = (Some e, s) \<and> errors_is e ErrInvalidSample"
  using validate_sample_None [of x] validate_sample_Some [of x]
  by (auto simp: record_sample_def split: option.split)

section \<open>The contract of the store\<close>

text \<open>What the service promises with a store that keeps its word: \<open>samples\<close> is what the store holds,
  \<open>other\<close> everything else in its state, \<open>key\<close> the place of a sample and \<open>kept\<close> which row may stand
  for it. A store that reports an error may have stored the sample all the same.\<close>

locale telemetry_contract =
  fixes store :: "'s telemetry_store"
    and samples :: "'s \<Rightarrow> 'k \<rightharpoonup> 'row"
    and other :: "'s \<Rightarrow> 'r"
    and key :: "sample \<Rightarrow> 'k option"
    and kept :: "sample \<Rightarrow> 'row \<Rightarrow> bool"
  assumes record_kept: "store_record store c x s = (None, s') \<Longrightarrow>
      \<exists>k row. key x = Some k \<and> kept x row \<and> samples s' = (samples s)(k \<mapsto> row)"
    and record_failed: "store_record store c x s = (Some e, s') \<Longrightarrow> samples s' = samples s \<or>
      (\<exists>k row. key x = Some k \<and> kept x row \<and> samples s' = (samples s)(k \<mapsto> row))"
    and record_other: "store_record store c x s = (r, s') \<Longrightarrow> other s' = other s"
begin

lemma record_sample_outcome:
  assumes "record_sample store c x s = (r, s')"
  shows "other s' = other s \<and>
    (r \<noteq> None \<and> samples s' = samples s \<or>
     valid_sample x \<and> (\<exists>k row. key x = Some k \<and> kept x row \<and> samples s' = (samples s)(k \<mapsto> row)))"
proof (cases "valid_sample x")
  case True
  obtain r1 s1 where call: "store_record store c x s = (r1, s1)" by force
  with assms True have s1: "s' = s1" "r = None \<longleftrightarrow> r1 = None"
    by (auto simp: record_sample_valid split: option.splits)
  have "other s' = other s" using record_other [OF call] s1(1) by simp
  moreover have "r \<noteq> None \<and> samples s' = samples s \<or>
      (\<exists>k row. key x = Some k \<and> kept x row \<and> samples s' = (samples s)(k \<mapsto> row))"
  proof (cases r1)
    case None
    from record_kept [OF call [unfolded None]] s1(1) show ?thesis by blast
  next
    case (Some e)
    from record_failed [OF call [unfolded Some]] s1 Some show ?thesis by blast
  qed
  ultimately show ?thesis using True by blast
next
  case False
  with assms record_sample_invalid [OF False, of store c s] show ?thesis by auto
qed

text \<open>Other samples are never touched, and a stored one is only ever replaced.\<close>

lemma record_sample_grows:
  "record_sample store c x s = (r, s') \<Longrightarrow> dom (samples s) \<subseteq> dom (samples s')"
  using record_sample_outcome [of c x s r s'] by auto

end

section \<open>Properties\<close>

text \<open>C24: \<open>validateSample\<close> accepts exactly the samples with a machine, a collection time, a CPU
  percentage that is a number between 0 and 100 (so no NaN and no infinity), memory and disk use
  between zero and their totals, and a non-negative uptime; a rejection is \<open>ErrInvalidSample\<close>.\<close>

theorem validate_sample_correct:
  "case validate_sample x of
     None \<Rightarrow> valid_sample x
   | Some e \<Rightarrow> \<not> valid_sample x \<and> errors_is e ErrInvalidSample"
  using validate_sample_None [of x] validate_sample_Some [of x] by (auto split: option.split)

text \<open>An invalid sample is reported as \<open>ErrInvalidSample\<close> without a call of the store.\<close>

theorem record_sample_rejects_untouched:
  assumes "\<not> valid_sample x"
  shows "\<exists>e. record_sample store c x s = (Some e, s) \<and> errors_is e ErrInvalidSample"
  using assms by (rule record_sample_invalid)

text \<open>An invalid sample: more memory used than there is.\<close>

theorem record_sample_rejects_untouched_witness:
  "\<exists>e. record_sample \<lparr>store_record = \<lambda>c x s. (None, Suc s)\<rparr> background
     \<lparr>smp_machine_id = ''m'', smp_collected_at = 1, smp_cpu_usage_percent = 0,
      smp_memory_total_bytes = 1, smp_memory_used_bytes = 2, smp_disk_total_bytes = 0,
      smp_disk_used_bytes = 0, smp_uptime_seconds = 0\<rparr> 0 = (Some e, 0) \<and>
     errors_is e ErrInvalidSample"
  by (rule record_sample_rejects_untouched) (simp add: valid_sample_def)

end
