(* ===== verification/Agent_Grpc.thy ===== *)
theory Agent_Grpc
  imports Enrollment Presence Telemetry
begin

text \<open>
  \<^verbatim>\<open>server/internal/agentgrpc/server.go\<close>: the gRPC handlers over the three interfaces they call,
  each a record of operations. A stream is the list of results its successive \<open>Recv\<close> calls give,
  each with the stream's context as the calls that follow find it; a handler that has used the
  list up is still \<open>Blocked\<close> in \<open>Recv\<close>. \<open>traced_tracker\<close> and \<open>traced_recorder\<close> log every call
  the handler makes, so the order of calls can be stated; logging of text is not modelled.
\<close>

section \<open>Interfaces\<close>

record 'e enroller =
  enroller_enroll :: "ctx \<Rightarrow> input \<Rightarrow> 'e \<Rightarrow> (go_error + enrolled_agent) \<times> 'e"

record 's presence_tracker =
  tracker_open :: "ctx \<Rightarrow> credentials \<Rightarrow> 's \<Rightarrow> (go_error + session) \<times> 's"
  tracker_activity :: "ctx \<Rightarrow> session \<Rightarrow> 's \<Rightarrow> go_error option \<times> 's"
  tracker_close :: "ctx \<Rightarrow> session \<Rightarrow> 's \<Rightarrow> go_error option \<times> 's"

record 's telemetry_recorder =
  recorder_record :: "ctx \<Rightarrow> sample \<Rightarrow> 's \<Rightarrow> go_error option \<times> 's"

text \<open>The struct of the gRPC server; each service is over a state of its own choice.\<close>

record ('e, 's) grpc_server =
  srv_enroller :: "'e enroller"
  srv_tracker :: "'s presence_tracker"
  srv_recorder :: "'s telemetry_recorder"

definition new_server ::
  "'e enroller \<Rightarrow> 's presence_tracker \<Rightarrow> 's telemetry_recorder \<Rightarrow> ('e, 's) grpc_server" where
  "new_server enroller tracker recorder =
     \<lparr>srv_enroller = enroller, srv_tracker = tracker, srv_recorder = recorder\<rparr>"

section \<open>Enroll\<close>

definition request_input :: "enroll_request option \<Rightarrow> input" where
  "request_input request =
     \<lparr>in_hostname = get_hostname request, in_operating_system = get_operating_system request,
      in_os_version = get_os_version request, in_architecture = get_architecture request,
      in_agent_version = get_agent_version request, in_capabilities = get_capabilities request\<rparr>"

definition grpc_enroll ::
  "'e enroller \<Rightarrow> ctx \<Rightarrow> enroll_request option \<Rightarrow> 'e \<Rightarrow> (go_error + enroll_response) \<times> 'e" where
  "grpc_enroll enroller c request s =
     (if request = None
      then (Inl (Status InvalidArgument ''enrollment request is required''), s)
      else case enroller_enroll enroller c (request_input request) s of
        (Inl e, s) \<Rightarrow>
          (if errors_is e ErrInvalidInput
           then (Inl (Status InvalidArgument ''invalid enrollment request''), s)
           else (Inl (Status Internal ''enrollment failed''), s))
      | (Inr result, s) \<Rightarrow>
          (Inr \<lparr>resp_machine_id = ea_machine_id result, resp_agent_id = ea_agent_id result,
                resp_agent_secret = ea_secret result\<rparr>, s))"

section \<open>StreamUpdates\<close>

record recv_event =
  ev_ctx :: ctx
  ev_result :: "go_error + agent_message option"

datatype handler_result = Blocked | Returned "go_error option"

definition session_close_timeout :: nat where
  "session_close_timeout = 5"

definition telemetry_sample ::
  "externals \<Rightarrow> session \<Rightarrow> telemetry option \<Rightarrow> go_error + sample" where
  "telemetry_sample ext session update =
     (case get_collected_at update of
        None \<Rightarrow> Inl (New ''telemetry collection time is required'')
      | Some ts \<Rightarrow>
          if \<not> ext_ts_valid ext ts then Inl (External ''invalid timestamp'')
          else Inr \<lparr>smp_machine_id = sess_machine_id session,
                    smp_collected_at = ext_ts_time ext ts,
                    smp_cpu_usage_percent = get_cpu_usage_percent update,
                    smp_memory_total_bytes = get_memory_total_bytes update,
                    smp_memory_used_bytes = get_memory_used_bytes update,
                    smp_disk_total_bytes = get_disk_total_bytes update,
                    smp_disk_used_bytes = get_disk_used_bytes update,
                    smp_uptime_seconds = get_uptime_seconds update\<rparr>)"

text \<open>The body of the \<open>switch\<close>: an error is what the handler returns, \<open>None\<close> goes on looping.\<close>

definition handle_message ::
  "externals \<Rightarrow> 's presence_tracker \<Rightarrow> 's telemetry_recorder \<Rightarrow> ctx \<Rightarrow> session
     \<Rightarrow> agent_message option \<Rightarrow> 's \<Rightarrow> go_error option \<times> 's" where
  "handle_message ext tracker recorder c session message s =
     (if message = None
      then (Some (Status InvalidArgument ''stream message payload is required''), s)
      else if get_heartbeat message \<noteq> None
      then (case tracker_activity tracker c session s of
              (Some e, s) \<Rightarrow> (Some (Status Internal ''record agent activity''), s)
            | (None, s) \<Rightarrow> (None, s))
      else if get_authenticate message \<noteq> None
      then (Some (Status InvalidArgument ''agent stream is already authenticated''), s)
      else if get_telemetry message \<noteq> None
      then (case telemetry_sample ext session (get_telemetry message) of
              Inl e \<Rightarrow> (Some (Status InvalidArgument ''invalid telemetry update''), s)
            | Inr sample \<Rightarrow>
           (case recorder_record recorder c sample s of
              (Some e, s) \<Rightarrow>
                (if errors_is e ErrInvalidSample
                 then (Some (Status InvalidArgument ''invalid telemetry update''), s)
                 else (Some (Status Internal ''record telemetry update''), s))
            | (None, s) \<Rightarrow>
           (case tracker_activity tracker c session s of
              (Some e, s) \<Rightarrow> (Some (Status Internal ''record agent activity''), s)
            | (None, s) \<Rightarrow> (None, s))))
      else (Some (Status InvalidArgument ''stream message payload is required''), s))"

text \<open>The closure \<open>closeSession\<close> with its captured flag \<open>closed\<close>.\<close>

definition close_once ::
  "'s presence_tracker \<Rightarrow> session \<Rightarrow> bool \<Rightarrow> 's \<Rightarrow> go_error option \<times> bool \<times> 's" where
  "close_once tracker session is_closed s =
     (if is_closed then (None, is_closed, s)
      else case tracker_close tracker (with_timeout background session_close_timeout) session s of
             (result, s) \<Rightarrow> (result, True, s))"

text \<open>The receive loop: the result, the flag \<open>closed\<close> and the state when it leaves the loop.
  \<open>reply\<close> is what \<open>stream.SendAndClose\<close> answers.\<close>

fun stream_loop ::
  "externals \<Rightarrow> 's presence_tracker \<Rightarrow> 's telemetry_recorder \<Rightarrow> go_error option \<Rightarrow> session
     \<Rightarrow> recv_event list \<Rightarrow> 's \<Rightarrow> handler_result \<times> bool \<times> 's" where
  "stream_loop ext tracker recorder reply session [] s = (Blocked, False, s)"
| "stream_loop ext tracker recorder reply session (ev # evs) s =
     (case ev_result ev of
        Inl err \<Rightarrow>
          if errors_is err EOF
          then (case close_once tracker session False s of
                  (Some e, is_closed, s) \<Rightarrow>
                    (Returned (Some (Status Internal ''close agent stream'')), is_closed, s)
                | (None, is_closed, s) \<Rightarrow> (Returned reply, is_closed, s))
          else (Returned (Some err), False, s)
      | Inr message \<Rightarrow>
          (case handle_message ext tracker recorder (ev_ctx ev) session message s of
             (Some err, s) \<Rightarrow> (Returned (Some err), False, s)
           | (None, s) \<Rightarrow> stream_loop ext tracker recorder reply session evs s))"

text \<open>The deferred \<open>closeSession\<close> runs when the handler returns; its error is dropped.\<close>

definition finish_stream ::
  "'s presence_tracker \<Rightarrow> session \<Rightarrow> handler_result \<times> bool \<times> 's \<Rightarrow> handler_result \<times> 's" where
  "finish_stream tracker session = (\<lambda>(result, is_closed, s).
     (case result of
        Blocked \<Rightarrow> (Blocked, s)
      | Returned e \<Rightarrow> (Returned e, snd (snd (close_once tracker session is_closed s)))))"

definition authenticate_stream ::
  "'s presence_tracker \<Rightarrow> recv_event \<Rightarrow> 's \<Rightarrow> (go_error + session) \<times> 's" where
  "authenticate_stream tracker ev s =
     (case ev_result ev of
        Inl err \<Rightarrow>
          if errors_is err EOF
          then (Inl (Status InvalidArgument ''authenticate message is required''), s)
          else (Inl err, s)
      | Inr message \<Rightarrow>
          if message = None \<or> get_authenticate message = None
          then (Inl (Status InvalidArgument
                       ''first stream message must authenticate the agent''), s)
          else let authenticate = get_authenticate message
               in (case tracker_open tracker (ev_ctx ev)
                          \<lparr>cred_agent_id = get_agent_id authenticate,
                           cred_secret = get_agent_secret authenticate\<rparr> s of
                     (Inl e, s) \<Rightarrow>
                       (if errors_is e ErrUnauthenticated
                        then (Inl (Status Unauthenticated ''agent authentication failed''), s)
                        else (Inl (Status Internal ''authenticate agent stream''), s))
                   | (Inr session, s) \<Rightarrow> (Inr session, s)))"

definition stream_updates ::
  "externals \<Rightarrow> 's presence_tracker \<Rightarrow> 's telemetry_recorder \<Rightarrow> go_error option
     \<Rightarrow> recv_event list \<Rightarrow> 's \<Rightarrow> handler_result \<times> 's" where
  "stream_updates ext tracker recorder reply evs s =
     (case evs of
        [] \<Rightarrow> (Blocked, s)
      | ev # evs \<Rightarrow>
          (case authenticate_stream tracker ev s of
             (Inl err, s) \<Rightarrow> (Returned (Some err), s)
           | (Inr session, s) \<Rightarrow>
               finish_stream tracker session
                 (stream_loop ext tracker recorder reply session evs s)))"

section \<open>Logging the calls\<close>

text \<open>A call with its arguments and what it returned.\<close>

datatype call =
    Call_Open ctx credentials "go_error + session"
  | Call_Activity ctx session "go_error option"
  | Call_Record ctx sample "go_error option"
  | Call_Close ctx session "go_error option"

definition logged :: "('s \<Rightarrow> 'r \<times> 's) \<Rightarrow> ('r \<Rightarrow> call) \<Rightarrow> 's \<times> call list \<Rightarrow> 'r \<times> 's \<times> call list" where
  "logged f entry = (\<lambda>(s, tr). case f s of (r, s') \<Rightarrow> (r, s', tr @ [entry r]))"

definition traced_tracker :: "'s presence_tracker \<Rightarrow> ('s \<times> call list) presence_tracker" where
  "traced_tracker t =
     \<lparr>tracker_open = (\<lambda>c creds. logged (tracker_open t c creds) (Call_Open c creds)),
      tracker_activity = (\<lambda>c sess. logged (tracker_activity t c sess) (Call_Activity c sess)),
      tracker_close = (\<lambda>c sess. logged (tracker_close t c sess) (Call_Close c sess))\<rparr>"

definition traced_recorder :: "'s telemetry_recorder \<Rightarrow> ('s \<times> call list) telemetry_recorder" where
  "traced_recorder r =
     \<lparr>recorder_record = (\<lambda>c smp. logged (recorder_record r c smp) (Call_Record c smp))\<rparr>"

lemmas traced_defs = traced_tracker_def traced_recorder_def logged_def

section \<open>What messages ask for\<close>

text \<open>The calls a message asks for, in order, when they all succeed.\<close>

definition message_calls :: "externals \<Rightarrow> session \<Rightarrow> ctx \<Rightarrow> agent_message option \<Rightarrow> call list" where
  "message_calls ext sess c message =
     (if get_heartbeat message \<noteq> None then [Call_Activity c sess None]
      else case get_telemetry message of
             None \<Rightarrow> []
           | Some t \<Rightarrow> (case telemetry_sample ext sess (Some t) of
                          Inl _ \<Rightarrow> []
                        | Inr smp \<Rightarrow> [Call_Record c smp None, Call_Activity c sess None]))"

definition event_calls :: "externals \<Rightarrow> session \<Rightarrow> recv_event \<Rightarrow> call list" where
  "event_calls ext sess ev =
     (case ev_result ev of Inl _ \<Rightarrow> [] | Inr message \<Rightarrow> message_calls ext sess (ev_ctx ev) message)"

definition close_call :: "session \<Rightarrow> go_error option \<Rightarrow> call" where
  "close_call sess = Call_Close (with_timeout background 5) sess"

text \<open>What is wrong with a message: the first one must authenticate, the later ones report something.\<close>

definition refusal :: "externals \<Rightarrow> bool \<Rightarrow> agent_message option \<Rightarrow> string option" where
  "refusal ext is_first m =
     (if is_first
      then (if get_authenticate m = None
            then Some ''first stream message must authenticate the agent'' else None)
      else if get_authenticate m \<noteq> None then Some ''agent stream is already authenticated''
      else if get_heartbeat m \<noteq> None then None
      else case get_telemetry m of
             None \<Rightarrow> Some ''stream message payload is required''
           | Some u \<Rightarrow> (case tm_collected_at u of
                 None \<Rightarrow> Some ''invalid telemetry update''
               | Some ts \<Rightarrow> if ext_ts_valid ext ts then None else Some ''invalid telemetry update''))"

definition admitted :: "externals \<Rightarrow> bool \<Rightarrow> recv_event \<Rightarrow> bool" where
  "admitted ext is_first ev \<longleftrightarrow> (\<exists>m. ev_result ev = Inr m \<and> refusal ext is_first m = None)"

text \<open>The error a call has returned, the same call with an error, and the status a failed call of a
  service is answered with.\<close>

fun call_error :: "call \<Rightarrow> go_error option" where
  "call_error (Call_Open c creds r) = (case r of Inl e \<Rightarrow> Some e | Inr _ \<Rightarrow> None)"
| "call_error (Call_Activity c sess r) = r"
| "call_error (Call_Record c smp r) = r"
| "call_error (Call_Close c sess r) = r"

fun failing :: "go_error \<Rightarrow> call \<Rightarrow> call" where
  "failing e (Call_Open c creds r) = Call_Open c creds (Inl e)"
| "failing e (Call_Activity c sess r) = Call_Activity c sess (Some e)"
| "failing e (Call_Record c smp r) = Call_Record c smp (Some e)"
| "failing e (Call_Close c sess r) = Call_Close c sess (Some e)"

fun failure_status :: "call \<Rightarrow> go_error \<Rightarrow> go_error" where
  "failure_status (Call_Open c creds r) e =
     (if errors_is e ErrUnauthenticated then Status Unauthenticated ''agent authentication failed''
      else Status Internal ''authenticate agent stream'')"
| "failure_status (Call_Activity c sess r) e = Status Internal ''record agent activity''"
| "failure_status (Call_Record c smp r) e =
     (if errors_is e ErrInvalidSample then Status InvalidArgument ''invalid telemetry update''
      else Status Internal ''record telemetry update'')"
| "failure_status (Call_Close c sess r) e = Status Internal ''close agent stream''"

fun is_close :: "call \<Rightarrow> bool" where
  "is_close (Call_Close c sess r) = True"
| "is_close _ = False"

definition service_failed :: "call \<Rightarrow> bool" where
  "service_failed call \<longleftrightarrow> \<not> is_close call \<and> call_error call \<noteq> None"

text \<open>How calls that are asked for end early: nothing was asked for, or one fails and is the last.\<close>

definition cut_short :: "call list \<Rightarrow> call list \<Rightarrow> bool" where
  "cut_short asked made \<longleftrightarrow> asked = [] \<and> made = [] \<or>
     (\<exists>k < length asked. \<exists>e. made = take k asked @ [failing e (asked ! k)])"

text \<open>What a stream ends with, by the event it ends at, the calls made for it and the result of closing.\<close>

definition stop_answer ::
  "externals \<Rightarrow> go_error option \<Rightarrow> recv_event \<Rightarrow> call list \<Rightarrow> go_error option \<Rightarrow> go_error option" where
  "stop_answer ext reply ev made closing =
     (case ev_result ev of
        Inl err \<Rightarrow>
          if \<not> errors_is err EOF then Some err
          else if closing = None then reply else Some (Status Internal ''close agent stream'')
      | Inr m \<Rightarrow>
          (case find service_failed made of
             Some call \<Rightarrow> Some (failure_status call (the (call_error call)))
           | None \<Rightarrow> Some (Status InvalidArgument (the (refusal ext False m)))))"

lemma oneof_exclusive:
  "get_heartbeat m \<noteq> None \<Longrightarrow> get_authenticate m = None"
  "get_authenticate m \<noteq> None \<Longrightarrow> get_telemetry m = None"
  by (auto simp: get_heartbeat_def get_authenticate_def get_telemetry_def
      split: option.splits payload.splits)

lemma message_calls_asked: "message_calls ext sess c m \<noteq> [] \<longleftrightarrow> refusal ext False m = None"
  by (auto simp: message_calls_def refusal_def oneof_exclusive telemetry_sample_def
      get_collected_at_def split: option.splits sum.splits if_splits)

lemma event_calls_asked: "event_calls ext sess ev \<noteq> [] \<longleftrightarrow> admitted ext False ev"
  by (auto simp: event_calls_def admitted_def message_calls_asked split: sum.splits)

lemma message_calls_succeed: "\<forall>call \<in> set (message_calls ext sess c m). call_error call = None"
  by (auto simp: message_calls_def split: option.splits sum.splits)

lemma event_calls_succeed: "\<forall>call \<in> set (event_calls ext sess ev). call_error call = None"
  using message_calls_succeed by (auto simp: event_calls_def split: sum.splits)

lemma cut_short_pair: "cut_short [x, y] [x, failing e y]"
  unfolding cut_short_def by (intro disjI2 exI [of _ "1"]) auto

lemma cut_short_first: "cut_short (x # xs) [failing e x]"
  unfolding cut_short_def by (intro disjI2 exI [of _ "0"]) auto

lemma handle_message_trace:
  assumes "handle_message ext (traced_tracker t) (traced_recorder r) c sess m (s, tr)
    = (err, s', tr')"
  shows "\<exists>made. tr' = tr @ made \<and>
    (case err of
       None \<Rightarrow> made = message_calls ext sess c m \<and> refusal ext False m = None
     | Some x \<Rightarrow> cut_short (message_calls ext sess c m) made \<and>
         Some x = (case find service_failed made of
             Some call \<Rightarrow> Some (failure_status call (the (call_error call)))
           | None \<Rightarrow> Some (Status InvalidArgument (the (refusal ext False m)))))"
proof -
  consider (beat) "get_heartbeat m \<noteq> None" "get_authenticate m = None"
    | (again) "get_heartbeat m = None" "get_authenticate m \<noteq> None" "get_telemetry m = None"
    | (update) u where "get_heartbeat m = None" "get_authenticate m = None" "get_telemetry m = Some u"
    | (nothing) "get_heartbeat m = None" "get_authenticate m = None" "get_telemetry m = None"
    using oneof_exclusive [of m] by fast
  then show ?thesis
  proof cases
    case beat
    then have m: "m \<noteq> None" by (cases m) auto
    have asked: "message_calls ext sess c m = [Call_Activity c sess None]" "refusal ext False m = None"
      using beat by (simp_all add: message_calls_def refusal_def)
    obtain x s1 where act: "tracker_activity t c sess s = (x, s1)" by force
    have "(err, s', tr') = (map_option (\<lambda>_. Status Internal ''record agent activity'') x, s1,
        tr @ [Call_Activity c sess x])"
      using assms beat m act by (simp add: handle_message_def traced_defs split: option.splits)
    with cut_short_first [of "Call_Activity c sess None" "[]"] show ?thesis
      by (cases x) (auto simp: asked service_failed_def)
  next
    case update
    then have m: "m \<noteq> None" by (cases m) auto
    show ?thesis
    proof (cases "telemetry_sample ext sess (Some u)")
      case (Inl e)
      with update m assms show ?thesis
        by (auto simp: handle_message_def message_calls_def refusal_def cut_short_def
            telemetry_sample_def get_collected_at_def split: option.splits if_splits)
    next
      case (Inr smp)
      then have ok: "refusal ext False m = None"
        using update by (auto simp: refusal_def telemetry_sample_def get_collected_at_def
            split: option.splits if_splits)
      have asked: "message_calls ext sess c m = [Call_Record c smp None, Call_Activity c sess None]"
        using update Inr by (simp add: message_calls_def)
      obtain x s1 where rec: "recorder_record r c smp s = (x, s1)" by force
      obtain y s2 where act: "tracker_activity t c sess s1 = (y, s2)" by force
      show ?thesis
      proof (cases x)
        case None
        have "(err, s', tr') = (map_option (\<lambda>_. Status Internal ''record agent activity'') y, s2,
            tr @ [Call_Record c smp None, Call_Activity c sess y])"
          using assms update m Inr rec act None by (simp add: handle_message_def traced_defs split: option.splits)
        with cut_short_pair [of "Call_Record c smp None" "Call_Activity c sess None"] show ?thesis
          by (cases y) (auto simp: asked ok service_failed_def)
      next
        case (Some e)
        have "(err, s', tr') = (Some (failure_status (Call_Record c smp x) e), s1, tr @ [Call_Record c smp x])"
          using assms update m Inr rec Some by (simp add: handle_message_def traced_defs split: if_splits)
        with Some cut_short_first [of "Call_Record c smp None" "[Call_Activity c sess None]" e] show ?thesis
          by (simp add: asked service_failed_def)
      qed
    qed
  qed (use assms in \<open>auto simp: handle_message_def message_calls_def refusal_def cut_short_def
       split: if_splits\<close>)
qed

lemma close_once_trace:
  assumes "close_once (traced_tracker t) sess is_closed (s, tr) = (err, is_closed', s', tr')"
  shows "is_closed' \<and> (if is_closed then err = None \<and> s' = s \<and> tr' = tr
    else tr' = tr @ [close_call sess err])"
  using assms
  by (auto simp: close_once_def traced_defs close_call_def session_close_timeout_def
      split: if_splits prod.splits)

text \<open>The calls and the answer of an accepted stream: the first \<open>n\<close> messages are served in full, the next
  event ends the stream, and the session is closed.\<close>

lemma session_run:
  "finish_stream (traced_tracker t) sess
     (stream_loop ext (traced_tracker t) (traced_recorder r) reply sess evs (s, tr)) = (res, s', tr') \<Longrightarrow>
   \<exists>n \<le> length evs. (\<forall>i < n. admitted ext False (evs ! i)) \<and>
     (n = length evs \<and> res = Blocked \<and> tr' = tr @ concat (map (event_calls ext sess) evs) \<or>
      n < length evs \<and> (\<exists>made closing. cut_short (event_calls ext sess (evs ! n)) made \<and>
        tr' = tr @ concat (map (event_calls ext sess) (take n evs)) @ made @ [close_call sess closing] \<and>
        res = Returned (stop_answer ext reply (evs ! n) made closing)))"
proof (induction evs arbitrary: s tr)
  case Nil
  then show ?case by (simp add: finish_stream_def)
next
  case (Cons ev evs)
  let ?loop = "stream_loop ext (traced_tracker t) (traced_recorder r) reply sess"
  have here: ?case if "cut_short (event_calls ext sess ev) made" "tr' = tr @ made @ [close_call sess closing]"
    "res = Returned (stop_answer ext reply ev made closing)" for made closing
    using that by (intro exI [of _ 0]) auto
  show ?case
  proof (cases "ev_result ev")
    case (Inl err)
    then have none: "cut_short (event_calls ext sess ev) []" by (simp add: cut_short_def event_calls_def)
    obtain e b s1 tr1 where c: "close_once (traced_tracker t) sess False (s, tr) = (e, b, s1, tr1)"
      by (metis prod.exhaust)
    have again: "close_once (traced_tracker t) sess True x = (None, True, x)" for x
      by (simp add: close_once_def)
    from c Cons.prems Inl close_once_trace [OF c] show ?thesis
      by (intro here [OF none, of e])
         (auto simp: finish_stream_def stop_answer_def again split: if_splits option.splits)
  next
    case (Inr m)
    obtain e s1 tr1 where h: "handle_message ext (traced_tracker t) (traced_recorder r)
        (ev_ctx ev) sess m (s, tr) = (e, s1, tr1)"
      by (metis prod.exhaust)
    have calls: "event_calls ext sess ev = message_calls ext sess (ev_ctx ev) m"
      using Inr by (simp add: event_calls_def)
    show ?thesis
    proof (cases e)
      case (Some x)
      with handle_message_trace [OF h] obtain made where made: "tr1 = tr @ made"
        "cut_short (event_calls ext sess ev) made" "Some x = stop_answer ext reply ev made None"
        by (auto simp: calls stop_answer_def Inr)
      obtain e' b s2 tr2 where c: "close_once (traced_tracker t) sess False (s1, tr1) = (e', b, s2, tr2)"
        by (metis prod.exhaust)
      have "Some x = stop_answer ext reply ev made e'" using made(3) by (simp add: stop_answer_def Inr)
      moreover have "(res, s', tr') = (Returned (Some x), s2, tr2)"
        using Some Cons.prems Inr h c by (simp add: finish_stream_def)
      ultimately show ?thesis
        using close_once_trace [OF c] made(1) by (intro here [OF made(2), of e']) simp_all
    next
      case None
      with handle_message_trace [OF h] have made: "tr1 = tr @ event_calls ext sess ev" "admitted ext False ev"
        by (auto simp: calls admitted_def Inr)
      from None Cons.prems Inr h have "finish_stream (traced_tracker t) sess (?loop evs (s1, tr1)) = (res, s', tr')"
        by simp
      from Cons.IH [OF this] obtain n where n: "n \<le> length evs" "\<forall>i < n. admitted ext False (evs ! i)"
        "n = length evs \<and> res = Blocked \<and> tr' = tr1 @ concat (map (event_calls ext sess) evs) \<or>
         n < length evs \<and> (\<exists>made closing. cut_short (event_calls ext sess (evs ! n)) made \<and>
           tr' = tr1 @ concat (map (event_calls ext sess) (take n evs)) @ made @ [close_call sess closing] \<and>
           res = Returned (stop_answer ext reply (evs ! n) made closing))"
        by blast
      have "\<forall>i < Suc n. admitted ext False ((ev # evs) ! i)"
        using n(2) made(2) by (auto simp: less_Suc_eq_0_disj)
      with n(1,3) made(1) show ?thesis by (intro exI [of _ "Suc n"]) auto
    qed
  qed
qed

text \<open>Logging does not change what the handler does.\<close>

lemma handle_message_untraced:
  "handle_message ext t r c sess m s =
     (case handle_message ext (traced_tracker t) (traced_recorder r) c sess m (s, tr) of
        (err, s', _) \<Rightarrow> (err, s'))"
  by (auto simp: handle_message_def traced_defs split: sum.splits option.splits prod.splits)

lemma close_once_untraced:
  "close_once t sess b s =
     (case close_once (traced_tracker t) sess b (s, tr) of (err, b', s', _) \<Rightarrow> (err, b', s'))"
  by (auto simp: close_once_def traced_defs split: prod.splits)

lemma stream_loop_untraced:
  "stream_loop ext t r reply sess evs s =
     (case stream_loop ext (traced_tracker t) (traced_recorder r) reply sess evs (s, tr) of
        (res, b, s', _) \<Rightarrow> (res, b, s'))"
proof (induction evs arbitrary: s tr)
  case (Cons ev evs)
  show ?case
  proof (cases "ev_result ev")
    case (Inl err)
    then show ?thesis
      by (auto simp: close_once_untraced [of t sess False s tr] split: prod.splits option.splits)
  next
    case (Inr m)
    obtain e s1 tr1 where "handle_message ext (traced_tracker t) (traced_recorder r)
        (ev_ctx ev) sess m (s, tr) = (e, s1, tr1)"
      by (metis prod.exhaust)
    with Inr show ?thesis
      using Cons.IH [of s1 tr1]
      by (auto simp: handle_message_untraced [of ext t r "ev_ctx ev" sess m s tr]
          split: option.splits)
  qed
qed simp

lemma authenticate_untraced:
  "authenticate_stream t ev s =
     (case authenticate_stream (traced_tracker t) ev (s, tr) of (x, s', _) \<Rightarrow> (x, s'))"
  by (auto simp: authenticate_stream_def traced_defs Let_def
      split: sum.splits option.splits prod.splits)

lemma stream_updates_untraced:
  "stream_updates ext t r reply evs s =
     (case stream_updates ext (traced_tracker t) (traced_recorder r) reply evs (s, tr) of
        (res, s', _) \<Rightarrow> (res, s'))"
proof (cases evs)
  case (Cons ev rest)
  obtain x s1 tr1 where a: "authenticate_stream (traced_tracker t) ev (s, tr) = (x, s1, tr1)"
    by (metis prod.exhaust)
  show ?thesis
  proof (cases x)
    case (Inr sess)
    obtain res b s2 tr2 where l: "stream_loop ext (traced_tracker t) (traced_recorder r) reply
        sess rest (s1, tr1) = (res, b, s2, tr2)"
      by (metis prod.exhaust)
    from Cons a Inr l show ?thesis
      by (auto simp: stream_updates_def authenticate_untraced [of t ev s tr]
          stream_loop_untraced [of ext t r reply sess rest s1 tr1] finish_stream_def
          close_once_untraced [of t sess b s2 tr2]
          split: handler_result.splits prod.splits)
  qed (use Cons a in \<open>simp add: stream_updates_def authenticate_untraced [of t ev s tr]\<close>)
qed (simp add: stream_updates_def)

text \<open>The credentials of a first message.\<close>

definition offered :: "recv_event \<Rightarrow> credentials option" where
  "offered ev = (case ev_result ev of
     Inl _ \<Rightarrow> None
   | Inr m \<Rightarrow> (case get_authenticate m of
       None \<Rightarrow> None
     | Some a \<Rightarrow> Some \<lparr>cred_agent_id = auth_agent_id a, cred_secret = auth_agent_secret a\<rparr>))"

lemma authenticate_trace:
  assumes "authenticate_stream (traced_tracker t) ev (s, []) = (x, s', tr)"
  shows "case offered ev of
      None \<Rightarrow> tr = [] \<and> (\<exists>e. x = Inl e)
    | Some creds \<Rightarrow> \<exists>r. tr = [Call_Open (ev_ctx ev) creds r] \<and>
        (case r of
           Inl e \<Rightarrow> x = Inl (failure_status (Call_Open (ev_ctx ev) creds r) e)
         | Inr sess \<Rightarrow> x = Inr sess)"
  using assms
  by (auto simp: authenticate_stream_def offered_def traced_defs Let_def get_agent_id_def
      get_agent_secret_def split: sum.splits option.splits prod.splits if_splits)

lemma offered_admitted: "offered ev \<noteq> None \<longleftrightarrow> admitted ext True ev"
  by (auto simp: offered_def admitted_def refusal_def split: sum.splits option.splits)

section \<open>Results\<close>

definition got_message :: "recv_event \<Rightarrow> bool" where
  "got_message ev \<longleftrightarrow> (\<exists>m. ev_result ev = Inr m)"


lemma handle_message_status:
  "fst (handle_message ext t r c sess m s) = None \<or>
   (\<exists>k txt. fst (handle_message ext t r c sess m s) = Some (Status k txt))"
  by (auto simp: handle_message_def split: sum.split option.split prod.split)

lemma stream_loop_result:
  "case fst (stream_loop ext t r reply sess evs s) of
     Blocked \<Rightarrow> list_all got_message evs
   | Returned x \<Rightarrow> x = reply \<or> (\<exists>k txt. x = Some (Status k txt)) \<or>
       (\<exists>ev \<in> set evs. \<exists>e. ev_result ev = Inl e \<and> x = Some e \<and> \<not> errors_is e EOF)"
proof (induction evs arbitrary: s)
  case (Cons ev evs)
  show ?case
  proof (cases "ev_result ev")
    case (Inl err)
    then show ?thesis by (auto split: prod.split option.split)
  next
    case (Inr m)
    obtain e s1 where h: "handle_message ext t r (ev_ctx ev) sess m s = (e, s1)" by force
    show ?thesis
    proof (cases e)
      case None
      with Cons.IH [of s1] Inr h show ?thesis by (auto simp: got_message_def split: handler_result.splits)
    next
      case (Some x)
      with handle_message_status [of ext t r "ev_ctx ev" sess m s] Inr h show ?thesis by auto
    qed
  qed
qed simp

lemma finish_stream_result [simp]: "fst (finish_stream t sess x) = fst x"
  by (cases x) (simp add: finish_stream_def split: handler_result.split)

lemma authenticate_stream_result:
  "case fst (authenticate_stream t ev s) of
     Inr _ \<Rightarrow> got_message ev
   | Inl x \<Rightarrow> (\<exists>k txt. x = Status k txt) \<or>
       (\<exists>e. ev_result ev = Inl e \<and> x = e \<and> \<not> errors_is e EOF)"
  by (auto simp: authenticate_stream_def got_message_def Let_def split: sum.split prod.split)

section \<open>Properties\<close>

text \<open>One run of the handler, on an opened stream.\<close>

lemma stream_run:
  assumes "evs = ev # rest" "offered ev = Some creds"
    and "stream_updates ext (traced_tracker t) (traced_recorder r) reply evs (s, []) = (res, s', calls)"
  shows "(\<exists>e. calls = [Call_Open (ev_ctx ev) creds (Inl e)] \<and>
      res = Returned (Some (failure_status (Call_Open (ev_ctx ev) creds (Inl e)) e))) \<or>
    (\<exists>sess n. n \<le> length rest \<and> (\<forall>i < n. admitted ext False (rest ! i)) \<and>
       (n = length rest \<and> res = Blocked \<and>
          calls = Call_Open (ev_ctx ev) creds (Inr sess) # concat (map (event_calls ext sess) rest) \<or>
        n < length rest \<and> (\<exists>made closing. cut_short (event_calls ext sess (rest ! n)) made \<and>
          calls = Call_Open (ev_ctx ev) creds (Inr sess) #
            concat (map (event_calls ext sess) (take n rest)) @ made @ [close_call sess closing] \<and>
          res = Returned (stop_answer ext reply (rest ! n) made closing))))"
proof -
  obtain x s1 tr1 where a: "authenticate_stream (traced_tracker t) ev (s, []) = (x, s1, tr1)"
    by (metis prod.exhaust)
  with authenticate_trace [OF a] assms(2) obtain o1 where tr1: "tr1 = [Call_Open (ev_ctx ev) creds o1]"
    "case o1 of Inl e \<Rightarrow> x = Inl (failure_status (Call_Open (ev_ctx ev) creds o1) e) | Inr sess \<Rightarrow> x = Inr sess"
    by auto
  show ?thesis
  proof (cases o1)
    case (Inl e)
    with tr1 a assms(1,3) show ?thesis by (auto simp: stream_updates_def)
  next
    case (Inr sess)
    with tr1 a assms(1,3) have "finish_stream (traced_tracker t) sess (stream_loop ext (traced_tracker t)
        (traced_recorder r) reply sess rest (s1, [Call_Open (ev_ctx ev) creds (Inr sess)])) = (res, s', calls)"
      by (simp add: stream_updates_def)
    from session_run [OF this] show ?thesis by (intro disjI2 exI [of _ sess]) simp
  qed
qed

lemma stream_refused:
  assumes "evs = ev # rest" "offered ev = None"
    and "stream_updates ext (traced_tracker t) (traced_recorder r) reply evs (s, []) = (res, s', calls)"
  shows "calls = [] \<and> res = Returned (Some
    (case ev_result ev of
       Inl err \<Rightarrow> if \<not> errors_is err EOF then err
                  else Status InvalidArgument ''authenticate message is required''
     | Inr m \<Rightarrow> Status InvalidArgument ''first stream message must authenticate the agent''))"
  using assms
  by (auto simp: stream_updates_def authenticate_stream_def offered_def split: sum.splits option.splits if_splits)

lemma service_calls_succeed:
  "find service_failed (concat (map (event_calls ext sess) evs) @ calls) = find service_failed calls"
proof -
  have "find service_failed (xs @ calls) = find service_failed calls"
    if "\<forall>call \<in> set xs. call_error call = None" for xs
    using that by (induction xs) (auto simp: service_failed_def)
  then show ?thesis using event_calls_succeed by fastforce
qed

lemma find_close [simp]: "find service_failed (made @ [close_call sess closing]) = find service_failed made"
  by (induction made) (auto simp: service_failed_def close_call_def)

lemma cut_short_nothing: "cut_short [] made \<Longrightarrow> made = []"
  by (simp add: cut_short_def)

lemma cut_short_fails:
  assumes "cut_short (event_calls ext sess ev) made" "event_calls ext sess ev \<noteq> []"
  shows "find service_failed made \<noteq> None"
proof -
  obtain k e where k: "k < length (event_calls ext sess ev)"
    "made = take k (event_calls ext sess ev) @ [failing e (event_calls ext sess ev ! k)]"
    using assms by (auto simp: cut_short_def)
  have "\<not> is_close (event_calls ext sess ev ! k)"
    using nth_mem [OF k(1)]
    by (auto simp: event_calls_def message_calls_def split: sum.splits option.splits if_splits)
  then have "service_failed (failing e (event_calls ext sess ev ! k))"
    by (cases "event_calls ext sess ev ! k") (simp_all add: service_failed_def)
  with k(2) show ?thesis by (auto simp: find_None_iff)
qed

text \<open>C13: the calls of one stream, on every path, with their contexts, arguments and results. A stream
  that offers no credentials makes no call. Otherwise the credentials are tried once, and if that
  fails nothing else is called. If it succeeds, the first \<open>n\<close> further messages have every call they
  ask for made, in order and successfully; if they are all that has come, the handler is waiting.
  Else it ends at the next event, which is an error or the end of the stream, a message that asks for
  no call, or a message one of whose calls fails, with no call after it; then the session is closed,
  once, and the handler returns.\<close>

theorem stream_call_discipline:
  "case stream_updates ext (traced_tracker t) (traced_recorder r) reply evs (s, []) of
     (res, s', calls) \<Rightarrow>
       (res, s') = stream_updates ext t r reply evs s \<and>
       (case evs of
          [] \<Rightarrow> res = Blocked \<and> calls = []
        | ev # rest \<Rightarrow>
            (case offered ev of
               None \<Rightarrow> res \<noteq> Blocked \<and> calls = []
             | Some creds \<Rightarrow>
                 res \<noteq> Blocked \<and> (\<exists>e. calls = [Call_Open (ev_ctx ev) creds (Inl e)]) \<or>
                 (\<exists>sess n. n \<le> length rest \<and> (\<forall>i < n. event_calls ext sess (rest ! i) \<noteq> []) \<and>
                   (n = length rest \<and> res = Blocked \<and>
                      calls = Call_Open (ev_ctx ev) creds (Inr sess) # concat (map (event_calls ext sess) rest) \<or>
                    n < length rest \<and> res \<noteq> Blocked \<and>
                      (\<exists>made closing. cut_short (event_calls ext sess (rest ! n)) made \<and>
                         calls = Call_Open (ev_ctx ev) creds (Inr sess) #
                           concat (map (event_calls ext sess) (take n rest)) @ made @ [close_call sess closing])))))"
proof -
  obtain res s' calls where run: "stream_updates ext (traced_tracker t) (traced_recorder r) reply evs (s, [])
      = (res, s', calls)" by (metis prod.exhaust)
  have same: "(res, s') = stream_updates ext t r reply evs s"
    using stream_updates_untraced [of ext t r reply evs s "[]"] run by simp
  show ?thesis
  proof (cases evs)
    case Nil
    with run same show ?thesis by (simp add: stream_updates_def)
  next
    case (Cons ev rest)
    show ?thesis
    proof (cases "offered ev")
      case None
      with run same Cons stream_refused [OF Cons None run] show ?thesis by simp
    next
      case (Some creds)
      from stream_run [OF Cons Some run] same show ?thesis
        unfolding run prod.case event_calls_asked
        unfolding Cons list.case Some option.case by blast
    qed
  qed
qed

text \<open>C25: what a stream ends with, as a function of what was received and how the calls ended. A handler
  that waits has admitted every message and seen no call fail. One that has returned did so at an event
  after messages it has admitted. At an error of \<open>Recv\<close> it gives that error, at the end of the stream the
  reply of \<open>SendAndClose\<close> if the session could be closed and a status if not, and in both cases no call
  of a service has failed. At a message it gives the status of the call that failed, or the one that
  says what is wrong with the message. Every status has a fixed text, so nothing of an error of the
  services or the database reaches the client.\<close>

theorem stream_result:
  "case stream_updates ext (traced_tracker t) (traced_recorder r) reply evs (s, []) of
     (res, s', calls) \<Rightarrow>
       res = fst (stream_updates ext t r reply evs s) \<and>
       (case res of
          Blocked \<Rightarrow> (\<forall>i < length evs. admitted ext (i = 0) (evs ! i)) \<and> find service_failed calls = None
        | Returned x \<Rightarrow>
            (\<exists>n < length evs. (\<forall>i < n. admitted ext (i = 0) (evs ! i)) \<and>
               (case ev_result (evs ! n) of
                  Inl err \<Rightarrow> find service_failed calls = None \<and>
                    x = (if \<not> errors_is err EOF then Some err
                         else if n = 0 then Some (Status InvalidArgument ''authenticate message is required'')
                         else if call_error (last calls) = None then reply
                         else Some (Status Internal ''close agent stream''))
                | Inr m \<Rightarrow>
                    (case find service_failed calls of
                       Some call \<Rightarrow> \<exists>e. call_error call = Some e \<and> x = Some (failure_status call e)
                     | None \<Rightarrow> \<exists>txt. refusal ext (n = 0) m = Some txt \<and>
                         x = Some (Status InvalidArgument txt)))))"
proof -
  obtain res s' calls where run: "stream_updates ext (traced_tracker t) (traced_recorder r) reply evs (s, [])
      = (res, s', calls)" by (metis prod.exhaust)
  have same: "res = fst (stream_updates ext t r reply evs s)"
    using stream_updates_untraced [of ext t r reply evs s "[]"] run by simp
  note goal = run same [symmetric]
  show ?thesis
  proof (cases evs)
    case Nil
    with run have "res = Blocked" "calls = []" by (simp_all add: stream_updates_def)
    with same Nil run show ?thesis by simp
  next
    case (Cons ev rest)
    show ?thesis
    proof (cases "offered ev")
      case None
      with Cons have n: "0 < length evs" "evs ! 0 = ev" by simp_all
      from None have "ev_result ev = Inr m \<Longrightarrow> refusal ext True m
          = Some ''first stream message must authenticate the agent''" for m
        by (auto simp: offered_def refusal_def split: option.splits)
      with stream_refused [OF Cons None run] n show ?thesis
        unfolding run goal(2)
        by (auto intro!: exI [of _ 0] split: sum.splits)
    next
      case (Some creds)
      then have ev: "admitted ext True ev" "\<exists>m. ev_result ev = Inr m"
        using offered_admitted [of ev ext] by (auto simp: admitted_def)
      have later: "\<forall>i < Suc n. admitted ext (i = 0) (evs ! i)" if "\<forall>i < n. admitted ext False (rest ! i)" for n
        using that ev(1) Cons by (auto simp: less_Suc_eq_0_disj)
      from stream_run [OF Cons Some run] consider
          (unauthenticated) e where "calls = [Call_Open (ev_ctx ev) creds (Inl e)]"
            "res = Returned (Some (failure_status (Call_Open (ev_ctx ev) creds (Inl e)) e))"
        | (waiting) sess where "\<forall>i < length rest. admitted ext False (rest ! i)" "res = Blocked"
            "calls = Call_Open (ev_ctx ev) creds (Inr sess) # concat (map (event_calls ext sess) rest)"
        | (ended) sess n made closing where "n < length rest" "\<forall>i < n. admitted ext False (rest ! i)"
            "cut_short (event_calls ext sess (rest ! n)) made"
            "calls = Call_Open (ev_ctx ev) creds (Inr sess) #
               concat (map (event_calls ext sess) (take n rest)) @ made @ [close_call sess closing]"
            "res = Returned (stop_answer ext reply (rest ! n) made closing)"
        by blast
      then show ?thesis
      proof cases
        case unauthenticated
        with ev(2) Cons show ?thesis
          unfolding run goal(2)
          by (auto intro!: exI [of _ 0] simp: service_failed_def)
      next
        case waiting
        have "find service_failed calls = None"
          using service_calls_succeed [of ext _ rest "[]"] waiting(3) by (simp add: service_failed_def)
        with later [OF waiting(1)] waiting(2) Cons show ?thesis
          unfolding run goal(2) by simp
      next
        case ended
        have found: "find service_failed calls = find service_failed made"
          using service_calls_succeed ended(4) by (simp add: service_failed_def)
        have at: "Suc n < length evs" "evs ! Suc n = rest ! n" using ended(1) Cons by simp_all
        have last: "call_error (last calls) = closing"
          using ended(4) by (simp add: close_call_def)
        have "case ev_result (evs ! Suc n) of
            Inl err \<Rightarrow> find service_failed calls = None \<and>
              stop_answer ext reply (rest ! n) made closing = (if \<not> errors_is err EOF then Some err
                else if Suc n = 0 then Some (Status InvalidArgument ''authenticate message is required'')
                else if call_error (last calls) = None then reply
                else Some (Status Internal ''close agent stream''))
          | Inr m \<Rightarrow>
              (case find service_failed calls of
                 Some call \<Rightarrow> \<exists>e. call_error call = Some e \<and>
                   stop_answer ext reply (rest ! n) made closing = Some (failure_status call e)
               | None \<Rightarrow> \<exists>txt. refusal ext (Suc n = 0) m = Some txt \<and>
                   stop_answer ext reply (rest ! n) made closing = Some (Status InvalidArgument txt))"
        proof (cases "ev_result (rest ! n)")
          case (Inl err)
          with ended(3) have "made = []" by (intro cut_short_nothing) (simp add: event_calls_def)
          with Inl show ?thesis by (simp add: at found last stop_answer_def)
        next
          case (Inr m)
          show ?thesis
          proof (cases "find service_failed made")
            case None
            with cut_short_fails [OF ended(3)] have "\<not> admitted ext False (rest ! n)"
              using event_calls_asked by blast
            with Inr obtain v where "refusal ext False m = Some v" by (auto simp: admitted_def)
            with Inr None show ?thesis by (simp add: at found stop_answer_def)
          next
            case (Some call)
            then have "service_failed call" by (auto simp: find_Some_iff)
            then obtain e where "call_error call = Some e" by (auto simp: service_failed_def)
            with Inr Some show ?thesis by (simp add: at found stop_answer_def)
          qed
        qed
        with later [OF ended(2)] at(1) same show ?thesis
          unfolding run prod.case ended(5) handler_result.case by blast
      qed
    qed
  qed
qed

text \<open>The stream handler always comes back once the transport reports an error or the end of the
  stream: no sequence of messages before it leaves the handler waiting.\<close>

theorem stream_returns:
  assumes "ev \<in> set evs" "ev_result ev = Inl err"
  shows "\<exists>x. fst (stream_updates ext t r reply evs s) = Returned x"
proof (cases evs)
  case (Cons ev' rest)
  obtain x s1 where a: "authenticate_stream t ev' s = (x, s1)" by force
  show ?thesis
  proof (cases x)
    case (Inl err)
    with Cons a show ?thesis by (simp add: stream_updates_def)
  next
    case (Inr sess)
    with a authenticate_stream_result [where t = t and ev = "ev'" and s = s]
    have "got_message ev'" by simp
    with assms Cons have "ev \<in> set rest" by (auto simp: got_message_def)
    with assms(2) have "fst (stream_loop ext t r reply sess rest s1) \<noteq> Blocked"
      using stream_loop_result [where evs = rest and ext = ext and t = t
        and r = r and reply = reply and sess = sess and s = s1]
      by (auto simp: got_message_def list_all_iff split: handler_result.splits)
    with Cons a Inr show ?thesis
      by (auto simp: stream_updates_def intro: handler_result.exhaust)
  qed
qed (use assms in simp)

text \<open>The answers of the \<open>Enroll\<close> handler: the enrolled agent field by field; \<open>InvalidArgument\<close>
  exactly for a missing request or an error that wraps \<open>ErrInvalidInput\<close>, \<open>Internal\<close> for every
  other error, with fixed texts that say nothing of the cause.\<close>

theorem grpc_enroll_answers:
  "case grpc_enroll enroller c request s of
     (Inr resp, s') \<Rightarrow> \<exists>r a. request = Some r \<and>
       enroller_enroll enroller c (request_input request) s = (Inr a, s') \<and>
       resp = \<lparr>resp_machine_id = ea_machine_id a, resp_agent_id = ea_agent_id a,
               resp_agent_secret = ea_secret a\<rparr>
   | (Inl err, s') \<Rightarrow>
       request = None \<and> s' = s \<and> err = Status InvalidArgument ''enrollment request is required'' \<or>
       (\<exists>r e. request = Some r \<and> enroller_enroll enroller c (request_input request) s = (Inl e, s') \<and>
          err = (if errors_is e ErrInvalidInput
                 then Status InvalidArgument ''invalid enrollment request''
                 else Status Internal ''enrollment failed''))"
  by (auto simp: grpc_enroll_def split: prod.split sum.split)

section \<open>Witnesses\<close>

definition demo_tracker :: "nat presence_tracker" where
  "demo_tracker = \<lparr>tracker_open = (\<lambda>c creds s. (Inr \<lparr>sess_machine_id = ''m'', sess_agent_id = ''a'',
       sess_connected_at = 1\<rparr>, s)),
     tracker_activity = (\<lambda>c sess s. (None, Suc s)), tracker_close = (\<lambda>c sess s. (None, s))\<rparr>"

definition received :: "payload option \<Rightarrow> recv_event" where
  "received p = \<lparr>ev_ctx = background, ev_result = Inr (Some \<lparr>msg_payload = p\<rparr>)\<rparr>"

definition recv_failed :: "go_error \<Rightarrow> recv_event" where
  "recv_failed e = \<lparr>ev_ctx = background, ev_result = Inl e\<rparr>"

definition demo_recorder :: "nat telemetry_recorder" where
  "demo_recorder = \<lparr>recorder_record = (\<lambda>c x s. (None, s))\<rparr>"

definition demo_clock :: externals where
  "demo_clock = \<lparr>ext_uuid_valid = (\<lambda>_. True), ext_ts_valid = (\<lambda>_. True), ext_ts_time = (\<lambda>_. 1)\<rparr>"

text \<open>The end of the stream after the authentication and a heartbeat.\<close>

definition demo_first :: recv_event where
  "demo_first = received (Some (Authenticate (Some \<lparr>auth_agent_id = ''a'', auth_agent_secret = ''s''\<rparr>)))"

definition demo_later :: "recv_event list" where
  "demo_later = [received (Some (Heartbeat (Some \<lparr>hb_sent_at = None\<rparr>))), recv_failed (Sentinel EOF)]"

definition demo_events :: "recv_event list" where
  "demo_events = demo_first # demo_later"

lemmas demo_events_defs = demo_events_def demo_first_def demo_later_def received_def recv_failed_def

theorem stream_returns_witness:
  "\<exists>x. fst (stream_updates demo_clock demo_tracker demo_recorder None demo_events 0) = Returned x"
  by (rule stream_returns [of "recv_failed (Sentinel EOF)" _ "Sentinel EOF"])
     (simp_all add: demo_events_defs)

lemma demo_events_run:
  "\<exists>sess. stream_updates demo_clock (traced_tracker demo_tracker) (traced_recorder demo_recorder) None
     demo_events (0, []) = (Returned None, Suc 0,
       [Call_Open background \<lparr>cred_agent_id = ''a'', cred_secret = ''s''\<rparr> (Inr sess),
        Call_Activity background sess None, close_call sess None])"
  by (auto simp: stream_updates_def demo_events_defs authenticate_stream_def
      get_authenticate_def get_heartbeat_def get_agent_id_def get_agent_secret_def traced_defs
      demo_tracker_def handle_message_def close_once_def finish_stream_def close_call_def
      session_close_timeout_def Let_def)

lemma demo_offered:
  "offered demo_first = Some \<lparr>cred_agent_id = ''a'', cred_secret = ''s''\<rparr>" "ev_ctx demo_first = background"
  by (simp_all add: demo_events_defs offered_def get_authenticate_def)

text \<open>The heartbeat is served in full, the end of the stream ends it.\<close>

theorem stream_call_discipline_witness:
  "\<exists>sess n made closing calls. 0 < n \<and> n < length demo_later \<and>
     stream_updates demo_clock (traced_tracker demo_tracker) (traced_recorder demo_recorder) None
       demo_events (0, []) = (Returned None, Suc 0, calls) \<and>
     tl calls = concat (map (event_calls demo_clock sess) (take n demo_later)) @ made
       @ [close_call sess closing]"
proof -
  obtain sess where run: "stream_updates demo_clock (traced_tracker demo_tracker)
      (traced_recorder demo_recorder) None demo_events (0, []) = (Returned None, Suc 0,
       [Call_Open background \<lparr>cred_agent_id = ''a'', cred_secret = ''s''\<rparr> (Inr sess),
        Call_Activity background sess None, close_call sess None])" (is "_ = (_, _, ?calls)")
    using demo_events_run by blast
  have "\<exists>sess n made closing. n < length demo_later \<and>
      cut_short (event_calls demo_clock sess (demo_later ! n)) made \<and>
      tl ?calls = concat (map (event_calls demo_clock sess) (take n demo_later)) @ made @ [close_call sess closing]"
    using stream_call_discipline [of demo_clock demo_tracker demo_recorder None demo_events 0]
    unfolding run prod.case
    unfolding demo_events_def list.case demo_offered option.case
    by (elim conjE disjE exE) (simp_all, blast)
  then obtain sess' n made closing where n: "n < length demo_later"
    "cut_short (event_calls demo_clock sess' (demo_later ! n)) made"
    "tl ?calls = concat (map (event_calls demo_clock sess') (take n demo_later)) @ made
      @ [close_call sess' closing]"
    by blast
  have "n \<noteq> 0"
  proof
    assume "n = 0"
    with n(3) have "made = [Call_Activity background sess None]" by simp
    with n(2) \<open>n = 0\<close> show False
      by (auto simp: cut_short_def demo_events_defs event_calls_def message_calls_def get_heartbeat_def)
  qed
  with n run show ?thesis by blast
qed

theorem stream_result_witness:
  "\<exists>n < length demo_events. (\<forall>i < n. admitted demo_clock (i = 0) (demo_events ! i)) \<and>
     ev_result (demo_events ! n) = Inl (Sentinel EOF) \<and>
     fst (stream_updates demo_clock demo_tracker demo_recorder None demo_events 0) = Returned None"
proof -
  obtain sess where run: "stream_updates demo_clock (traced_tracker demo_tracker)
      (traced_recorder demo_recorder) None demo_events (0, []) = (Returned None, Suc 0,
       [Call_Open background \<lparr>cred_agent_id = ''a'', cred_secret = ''s''\<rparr> (Inr sess),
        Call_Activity background sess None, close_call sess None])" (is "_ = (_, _, ?calls)")
    using demo_events_run by blast
  have none: "find service_failed ?calls = None" by (simp add: service_failed_def close_call_def)
  note result = stream_result [of demo_clock demo_tracker demo_recorder None demo_events 0,
      unfolded run prod.case handler_result.case none option.case]
  from result obtain n where n: "n < length demo_events" "\<forall>i < n. admitted demo_clock (i = 0) (demo_events ! i)"
    and c: "case ev_result (demo_events ! n) of Inl err \<Rightarrow> True | Inr m \<Rightarrow> False"
    by (elim conjE exE) (auto split: sum.splits)
  have "ev_result (demo_events ! n) = Inl (Sentinel EOF)"
    using n(1) c by (auto simp: demo_events_defs less_Suc_eq nth_Cons')
  with n result show ?thesis by auto
qed

end
