(* ===== verification/Services.thy ===== *)
theory Services
  imports Agent_Grpc
begin

text \<open>
  The three services as the gRPC server gets them from \<open>newApplication\<close>: the interfaces of
  \<^verbatim>\<open>server/internal/agentgrpc/server.go\<close> filled with the operations of the packages
  \<^verbatim>\<open>enrollment\<close>, \<^verbatim>\<open>presence\<close> and \<^verbatim>\<open>telemetry\<close>, over any stores.
\<close>

definition enrollment_service :: "'s enrollment_store \<Rightarrow> (reader \<times> 's) enroller" where
  "enrollment_service store = \<lparr>enroller_enroll = enroll store\<rparr>"

definition presence_service :: "externals \<Rightarrow> 's presence_store \<Rightarrow> 's presence_tracker" where
  "presence_service ext store =
     \<lparr>tracker_open = open_session ext store, tracker_activity = record_activity store,
      tracker_close = close_session store\<rparr>"

definition telemetry_service :: "'s telemetry_store \<Rightarrow> 's telemetry_recorder" where
  "telemetry_service store = \<lparr>recorder_record = record_sample store\<rparr>"

lemma service_simps [simp]:
  "enroller_enroll (enrollment_service es) = enroll es"
  "tracker_open (presence_service ext ps) = open_session ext ps"
  "tracker_activity (presence_service ext ps) = record_activity ps"
  "tracker_close (presence_service ext ps) = close_session ps"
  "recorder_record (telemetry_service ts) = record_sample ts"
  by (simp_all add: enrollment_service_def presence_service_def telemetry_service_def)

end
