(* ===== verification/Streams.thy ===== *)
theory Streams
  imports Services
begin

text \<open>
  Many streams at once. Each call of \<open>StreamUpdates\<close> runs in a goroutine of its own over the same
  database, so between two store operations of one stream those of others may happen. \<open>conn_step\<close>
  is the handler cut at its store operations: one step is what the handler does up to and
  including its next store operation, and \<open>conn\<close> is where it stands in between. The handler of
  theory Agent_Grpc is shown to be a run of these steps.
\<close>

section \<open>The handler in steps\<close>

datatype conn =
    Awaiting                    \<comment> \<open>in the first \<open>Recv\<close>\<close>
  | Starting ctx identity       \<comment> \<open>credentials accepted, before \<open>StartSession\<close>\<close>
  | Receiving session           \<comment> \<open>in the \<open>Recv\<close> of the loop\<close>
  | Touching ctx session        \<comment> \<open>before \<open>TouchSession\<close>\<close>
  | Closing session go_error    \<comment> \<open>returning this error, before the deferred close\<close>
  | Closing_Eof session         \<comment> \<open>stream ended, before the close\<close>
  | Done "go_error option"      \<comment> \<open>returned\<close>

definition find_identity ::
  "externals \<Rightarrow> 's presence_store \<Rightarrow> ctx \<Rightarrow> credentials \<Rightarrow> 's \<Rightarrow> (go_error + identity) \<times> 's" where
  \<comment> \<open>\<open>OpenSession\<close> up to the comparison of the digests\<close>
  "find_identity ext store c creds s =
     (if \<not> is_uuid ext (cred_agent_id creds) then (Inl (Sentinel ErrUnauthenticated), s)
      else if trim_space (cred_secret creds) = '''' then (Inl (Sentinel ErrUnauthenticated), s)
      else case find_active_identity store c (cred_agent_id creds) s of
        (Inl e, s) \<Rightarrow> (Inl (wrap_error ''find active identity: '' e), s)
      | (Inr None, s) \<Rightarrow> (Inl (Sentinel ErrUnauthenticated), s)
      | (Inr (Some identity), s) \<Rightarrow>
          if \<not> hmac_equal (sha256 (string_bytes (cred_secret creds))) (id_credential_hash identity)
          then (Inl (Sentinel ErrUnauthenticated), s)
          else (Inr identity, s))"

definition open_status :: "go_error \<Rightarrow> go_error" where
  "open_status e =
     (if errors_is e ErrUnauthenticated then Status Unauthenticated ''agent authentication failed''
      else Status Internal ''authenticate agent stream'')"

definition record_status :: "go_error \<Rightarrow> go_error" where
  "record_status e =
     (if errors_is e ErrInvalidSample then Status InvalidArgument ''invalid telemetry update''
      else Status Internal ''record telemetry update'')"

definition receive_message ::
  "externals \<Rightarrow> 's telemetry_store \<Rightarrow> ctx \<Rightarrow> session \<Rightarrow> agent_message option \<Rightarrow> 's \<Rightarrow> conn \<times> 's" where
  "receive_message ext ts c sess message s =
     (if get_heartbeat message \<noteq> None then (Touching c sess, s)
      else if get_authenticate message \<noteq> None
      then (Closing sess (Status InvalidArgument ''agent stream is already authenticated''), s)
      else case get_telemetry message of
        None \<Rightarrow> (Closing sess (Status InvalidArgument ''stream message payload is required''), s)
      | Some t \<Rightarrow>
     (case telemetry_sample ext sess (Some t) of
        Inl e \<Rightarrow> (Closing sess (Status InvalidArgument ''invalid telemetry update''), s)
      | Inr smp \<Rightarrow>
     (case record_sample ts c smp s of
        (Some e, s) \<Rightarrow> (Closing sess (record_status e), s)
      | (None, s) \<Rightarrow> (Touching c sess, s))))"

definition close_ctx :: ctx where
  "close_ctx = with_timeout background session_close_timeout"

fun conn_step ::
  "externals \<Rightarrow> 's presence_store \<Rightarrow> 's telemetry_store \<Rightarrow> go_error option \<Rightarrow> recv_event
     \<Rightarrow> conn \<Rightarrow> 's \<Rightarrow> conn \<times> 's" where
  "conn_step ext ps ts reply ev Awaiting s =
     (case ev_result ev of
        Inl err \<Rightarrow>
          (Done (Some (if errors_is err EOF
                       then Status InvalidArgument ''authenticate message is required''
                       else err)), s)
      | Inr message \<Rightarrow>
     (case get_authenticate message of
        None \<Rightarrow> (Done (Some (Status InvalidArgument
                   ''first stream message must authenticate the agent'')), s)
      | Some a \<Rightarrow>
     (case find_identity ext ps (ev_ctx ev)
             \<lparr>cred_agent_id = auth_agent_id a, cred_secret = auth_agent_secret a\<rparr> s of
        (Inl e, s) \<Rightarrow> (Done (Some (open_status e)), s)
      | (Inr ident, s) \<Rightarrow> (Starting (ev_ctx ev) ident, s))))"
| "conn_step ext ps ts reply ev (Starting c ident) s =
     (case start_session ps c (id_machine_id ident) s of
        (Inl e, s) \<Rightarrow> (Done (Some (open_status (wrap_error ''start presence session: '' e))), s)
      | (Inr t, s) \<Rightarrow>
          (Receiving \<lparr>sess_machine_id = id_machine_id ident, sess_agent_id = id_agent_id ident,
                      sess_connected_at = t\<rparr>, s))"
| "conn_step ext ps ts reply ev (Receiving sess) s =
     (case ev_result ev of
        Inl err \<Rightarrow> (if errors_is err EOF then Closing_Eof sess else Closing sess err, s)
      | Inr message \<Rightarrow> receive_message ext ts (ev_ctx ev) sess message s)"
| "conn_step ext ps ts reply ev (Touching c sess) s =
     (case record_activity ps c sess s of
        (Some e, s) \<Rightarrow> (Closing sess (Status Internal ''record agent activity''), s)
      | (None, s) \<Rightarrow> (Receiving sess, s))"
| "conn_step ext ps ts reply ev (Closing sess err) s =
     (case close_session ps close_ctx sess s of (_, s) \<Rightarrow> (Done (Some err), s))"
| "conn_step ext ps ts reply ev (Closing_Eof sess) s =
     (case close_session ps close_ctx sess s of
        (Some e, s) \<Rightarrow> (Done (Some (Status Internal ''close agent stream'')), s)
      | (None, s) \<Rightarrow> (Done reply, s))"
| "conn_step ext ps ts reply ev (Done r) s = (Done r, s)"

text \<open>One stream on its own: \<open>Recv\<close> takes the next event, the other steps take none.\<close>

fun in_recv :: "conn \<Rightarrow> bool" where
  "in_recv Awaiting = True"
| "in_recv (Receiving sess) = True"
| "in_recv _ = False"

inductive conn_trans ::
  "externals \<Rightarrow> 's presence_store \<Rightarrow> 's telemetry_store \<Rightarrow> go_error option
     \<Rightarrow> recv_event list \<times> conn \<times> 's \<Rightarrow> recv_event list \<times> conn \<times> 's \<Rightarrow> bool"
  for ext ps ts reply where
  receive: "in_recv k \<Longrightarrow> conn_step ext ps ts reply ev k s = (k', s') \<Longrightarrow>
    conn_trans ext ps ts reply (ev # evs, k, s) (evs, k', s')"
| internal: "\<not> in_recv k \<Longrightarrow> conn_step ext ps ts reply ev k s = (k', s') \<Longrightarrow>
    conn_trans ext ps ts reply (evs, k, s) (evs, k', s')"

abbreviation conn_run ::
  "externals \<Rightarrow> 's presence_store \<Rightarrow> 's telemetry_store \<Rightarrow> go_error option
     \<Rightarrow> recv_event list \<times> conn \<times> 's \<Rightarrow> recv_event list \<times> conn \<times> 's \<Rightarrow> bool" where
  "conn_run ext ps ts reply \<equiv> (conn_trans ext ps ts reply)\<^sup>*\<^sup>*"

section \<open>The handler is a run of steps\<close>

lemma open_session_find:
  "open_session ext ps c creds s =
     (case find_identity ext ps c creds s of
        (Inl e, s) \<Rightarrow> (Inl e, s)
      | (Inr ident, s) \<Rightarrow>
          (case start_session ps c (id_machine_id ident) s of
             (Inl e, s) \<Rightarrow> (Inl (wrap_error ''start presence session: '' e), s)
           | (Inr t, s) \<Rightarrow> (Inr \<lparr>sess_machine_id = id_machine_id ident,
                                sess_agent_id = id_agent_id ident, sess_connected_at = t\<rparr>, s)))"
  by (simp add: open_session_def find_identity_def Let_def split: prod.split sum.split option.split)

lemma run_internal:
  assumes "\<not> in_recv k" "conn_step ext ps ts reply ev k s = (k', s')"
    and "conn_run ext ps ts reply (evs, k', s') x"
  shows "conn_run ext ps ts reply (evs, k, s) x"
  using conn_trans.internal [OF assms(1,2), of evs] assms(3)
  by (rule converse_rtranclp_into_rtranclp)

lemma run_receive:
  assumes "in_recv k" "conn_step ext ps ts reply ev k s = (k', s')"
    and "conn_run ext ps ts reply (evs, k', s') x"
  shows "conn_run ext ps ts reply (ev # evs, k, s) x"
  using conn_trans.receive [OF assms(1,2), of evs] assms(3)
  by (rule converse_rtranclp_into_rtranclp)

lemma handle_message_run:
  assumes "handle_message ext (presence_service ext ps) (telemetry_service ts) c sess m s = (x, s')"
    and "receive_message ext ts c sess m s = (k, s1)"
  shows "conn_run ext ps ts reply (evs, k, s1)
    (evs, case x of None \<Rightarrow> Receiving sess | Some e \<Rightarrow> Closing sess e, s')"
proof -
  have touch: "conn_run ext ps ts reply (evs, Touching c sess, s2)
      (evs, case map_option (\<lambda>_. Status Internal ''record agent activity'') y of
              None \<Rightarrow> Receiving sess | Some e \<Rightarrow> Closing sess e, s3)"
    if "record_activity ps c sess s2 = (y, s3)" for s2 y s3
    by (rule run_internal [of _ ext ps ts reply undefined _
          "case map_option (\<lambda>_. Status Internal ''record agent activity'') y of
             None \<Rightarrow> Receiving sess | Some e \<Rightarrow> Closing sess e"])
       (use that in \<open>auto split: option.split\<close>)
  show ?thesis
    using assms
    by (auto simp: handle_message_def receive_message_def record_status_def
        split: if_splits option.splits sum.splits prod.splits dest!: touch)
qed


lemma finish_stream_run:
  assumes "finish_stream (presence_service ext ps) sess
      (stream_loop ext (presence_service ext ps) (telemetry_service ts) reply sess evs s) = (res, s')"
  shows "\<exists>evs' k. conn_run ext ps ts reply (evs, Receiving sess, s) (evs', k, s') \<and>
    (case res of Blocked \<Rightarrow> evs' = [] \<and> k = Receiving sess | Returned x \<Rightarrow> k = Done x)"
  using assms
proof (induction evs arbitrary: s)
  case Nil
  then show ?case by (auto simp: finish_stream_def)
next
  case (Cons ev evs)
  obtain k s1 where st: "conn_step ext ps ts reply ev (Receiving sess) s = (k, s1)" by force
  note recv = run_receive [OF _ st, simplified]
  have close: "conn_run ext ps ts reply (evs, Closing sess e, s2)
      (evs, Done (Some e), snd (close_session ps close_ctx sess s2))" for e s2
    by (rule run_internal [of _ ext ps ts reply ev _ "Done (Some e)"
          "snd (close_session ps close_ctx sess s2)"]) (simp_all split: prod.split)
  show ?case
  proof (cases "ev_result ev")
    case (Inl err)
    obtain y s2 where c: "close_session ps close_ctx sess s = (y, s2)" by force
    show ?thesis
    proof (cases "errors_is err EOF")
      case True
      have closed: "conn_run ext ps ts reply (evs, Closing_Eof sess, s)
          (evs, Done (if y = None then reply else Some (Status Internal ''close agent stream'')), s2)"
        by (rule run_internal [of _ ext ps ts reply ev _
              "Done (if y = None then reply else Some (Status Internal ''close agent stream''))" s2])
           (auto simp: c split: option.split)
      have "k = Closing_Eof sess" "s1 = s" using st True Inl by simp_all
      with recv [of evs] closed have run: "conn_run ext ps ts reply (ev # evs, Receiving sess, s)
          (evs, Done (if y = None then reply else Some (Status Internal ''close agent stream'')), s2)"
        by blast
      have "res = Returned (if y = None then reply else Some (Status Internal ''close agent stream''))"
        "s' = s2"
        using True Inl c Cons.prems
        by (auto simp: close_once_def finish_stream_def close_ctx_def split: option.splits)
      with run show ?thesis by fastforce
    next
      case False
      have "k = Closing sess err" "s1 = s" using st False Inl by simp_all
      with recv [of evs] close [of err s] c have run: "conn_run ext ps ts reply
          (ev # evs, Receiving sess, s) (evs, Done (Some err), s2)"
        by fastforce
      have "res = Returned (Some err)" "s' = s2"
        using False Inl c Cons.prems by (auto simp: close_once_def finish_stream_def close_ctx_def)
      with run show ?thesis by fastforce
    qed
  next
    case (Inr m)
    obtain x s2 where h: "handle_message ext (presence_service ext ps) (telemetry_service ts)
        (ev_ctx ev) sess m s = (x, s2)" by force
    have hr: "conn_run ext ps ts reply (evs, k, s1)
        (evs, case x of None \<Rightarrow> Receiving sess | Some e \<Rightarrow> Closing sess e, s2)"
      by (rule handle_message_run [OF h]) (use st Inr in simp)
    show ?thesis
    proof (cases x)
      case None
      with Cons.prems Inr h have "finish_stream (presence_service ext ps) sess
          (stream_loop ext (presence_service ext ps) (telemetry_service ts) reply sess evs s2) = (res, s')"
        by simp
      from Cons.IH [OF this] obtain evs' k' where
        "conn_run ext ps ts reply (evs, Receiving sess, s2) (evs', k', s')"
        "case res of Blocked \<Rightarrow> evs' = [] \<and> k' = Receiving sess | Returned x \<Rightarrow> k' = Done x"
        by blast
      moreover have "conn_run ext ps ts reply (ev # evs, Receiving sess, s) (evs, Receiving sess, s2)"
        using recv hr None by simp
      ultimately show ?thesis by (meson rtranclp_trans)
    next
      case (Some e)
      with Cons.prems Inr h have "res = Returned (Some e)" "s' = snd (close_session ps close_ctx sess s2)"
        by (auto simp: finish_stream_def close_once_def close_ctx_def split: prod.splits)
      moreover have "conn_run ext ps ts reply (ev # evs, Receiving sess, s)
          (evs, Done (Some e), snd (close_session ps close_ctx sess s2))"
        using recv rtranclp_trans [OF hr] close [of e s2] Some by simp
      ultimately show ?thesis by fastforce
    qed
  qed
qed

section \<open>All streams over one database\<close>

text \<open>
  A configuration: where each stream stands (a stream nobody has opened yet is \<open>Awaiting\<close>), the
  machines whose status is in doubt, and the state of the stores. A machine is in doubt once a
  \<open>StartSession\<close> or \<open>EndSession\<close> for it reported an error: the handler cannot know whether it took
  effect, and does not repeat it. A step is a step of one stream, on any received event, or an
  enrollment.
\<close>

type_synonym ('k, 's) streams_state = "(nat \<Rightarrow> conn) \<times> 'k set \<times> 's"

definition failed_machines :: "(string \<Rightarrow> 'k option) \<Rightarrow> 's presence_store \<Rightarrow> conn \<Rightarrow> 's \<Rightarrow> 'k set" where
  "failed_machines key ps k s =
     (case k of
        Starting c ident \<Rightarrow>
          (case start_session ps c (id_machine_id ident) s of
             (Inl _, _) \<Rightarrow> {m. key (id_machine_id ident) = Some m} | _ \<Rightarrow> {})
      | Closing sess _ \<Rightarrow>
          (case end_session ps close_ctx sess s of
             (Some _, _) \<Rightarrow> {m. key (sess_machine_id sess) = Some m} | _ \<Rightarrow> {})
      | Closing_Eof sess \<Rightarrow>
          (case end_session ps close_ctx sess s of
             (Some _, _) \<Rightarrow> {m. key (sess_machine_id sess) = Some m} | _ \<Rightarrow> {})
      | _ \<Rightarrow> {})"

fun conn_session :: "conn \<Rightarrow> session option" where
  "conn_session (Receiving sess) = Some sess"
| "conn_session (Touching c sess) = Some sess"
| "conn_session (Closing sess e) = Some sess"
| "conn_session (Closing_Eof sess) = Some sess"
| "conn_session _ = None"

inductive server_step ::
  "externals \<Rightarrow> 's presence_store \<Rightarrow> 's telemetry_store \<Rightarrow> 's enrollment_store \<Rightarrow> go_error option
     \<Rightarrow> (string \<Rightarrow> 'k option) \<Rightarrow> ('k, 's) streams_state \<Rightarrow> ('k, 's) streams_state \<Rightarrow> bool"
  for ext ps ts es reply key where
  stream: "conn_step ext ps ts reply ev (cs n) s = (k', s') \<Longrightarrow>
    server_step ext ps ts es reply key (cs, D, s)
      (cs(n := k'), D \<union> failed_machines key ps (cs n) s, s')"
| enrollment: "store_enroll es c se s = (res, s') \<Longrightarrow>
    server_step ext ps ts es reply key (cs, D, s) (cs, D, s')"

inductive server_reachable ::
  "externals \<Rightarrow> 's presence_store \<Rightarrow> 's telemetry_store \<Rightarrow> 's enrollment_store \<Rightarrow> go_error option
     \<Rightarrow> (string \<Rightarrow> 'k option) \<Rightarrow> 's \<Rightarrow> ('k, 's) streams_state \<Rightarrow> bool"
  for ext ps ts es reply key s0 where
  start: "server_reachable ext ps ts es reply key s0 (\<lambda>_. Awaiting, {}, s0)"
| step: "server_reachable ext ps ts es reply key s0 x \<Longrightarrow>
    server_step ext ps ts es reply key x y \<Longrightarrow> server_reachable ext ps ts es reply key s0 y"

text \<open>What the other stores do to the presence view: telemetry nothing, an enrollment at most adds a
  machine that has never connected.\<close>

locale stream_contract = presence_contract store view key stamp ok
  for store :: "'s presence_store"
    and view :: "'s \<Rightarrow> 'k view"
    and key :: "string \<Rightarrow> 'k option"
    and stamp :: "go_time \<Rightarrow> int"
    and ok :: "'s \<Rightarrow> bool" +
  fixes tstore :: "'s telemetry_store"
    and estore :: "'s enrollment_store"
  assumes record_view: "store_record tstore c smp s = (r, s') \<Longrightarrow> view s' = view s"
    and record_ok: "ok s \<Longrightarrow> store_record tstore c smp s = (r, s') \<Longrightarrow> ok s'"
    and enroll_view: "store_enroll estore c se s = (res, s') \<Longrightarrow>
      view s' = view s \<or> (\<exists>k. view s k = None \<and> view s' = (view s)(k \<mapsto> (False, None)))"
    and enroll_ok: "ok s \<Longrightarrow> store_enroll estore c se s = (res, s') \<Longrightarrow> ok s'"
begin

definition holds :: "(nat \<Rightarrow> conn) \<Rightarrow> nat \<Rightarrow> 'k \<Rightarrow> int \<Rightarrow> bool" where
  \<comment> \<open>stream \<open>n\<close> has a session of machine \<open>m\<close> that began at \<open>t\<close>\<close>
  "holds cs n m t \<longleftrightarrow> (\<exists>sess. conn_session (cs n) = Some sess \<and>
     key (sess_machine_id sess) = Some m \<and> stamp (sess_connected_at sess) = t)"

definition accounted :: "(nat \<Rightarrow> 'k \<Rightarrow> int \<Rightarrow> bool) \<Rightarrow> 'k set \<Rightarrow> 'k view \<Rightarrow> bool" where
  "accounted H D v \<longleftrightarrow>
     (\<forall>n m t. H n m t \<longrightarrow> (\<exists>b t'. v m = Some (b, Some t') \<and> t \<le> t' \<and> (t = t' \<longrightarrow> b))) \<and>
     (\<forall>n n' m t. H n m t \<longrightarrow> H n' m t \<longrightarrow> n = n') \<and>
     (\<forall>m t. v m = Some (True, t) \<longrightarrow> m \<notin> D \<longrightarrow> (\<exists>n t'. t = Some t' \<and> H n m t'))"

lemma accountedI:
  assumes "\<And>n m t. H n m t \<Longrightarrow> \<exists>b u. v m = Some (b, Some u) \<and> t \<le> u \<and> (t = u \<longrightarrow> b)"
    and "\<And>n n' m t. H n m t \<Longrightarrow> H n' m t \<Longrightarrow> n = n'"
    and "\<And>m t. v m = Some (True, t) \<Longrightarrow> m \<notin> D \<Longrightarrow> \<exists>n u. t = Some u \<and> H n m u"
  shows "accounted H D v"
  using assms unfolding accounted_def by blast

lemma accounted_tracked:
  "accounted H D v \<Longrightarrow> H n m t \<Longrightarrow> \<exists>b u. v m = Some (b, Some u) \<and> t \<le> u \<and> (t = u \<longrightarrow> b)"
  unfolding accounted_def by blast

lemma accounted_unique: "accounted H D v \<Longrightarrow> H n m t \<Longrightarrow> H n' m t \<Longrightarrow> n = n'"
  unfolding accounted_def by blast

lemma accounted_held:
  "accounted H D v \<Longrightarrow> v m = Some (True, t) \<Longrightarrow> m \<notin> D \<Longrightarrow> \<exists>n u. t = Some u \<and> H n m u"
  unfolding accounted_def by blast

lemma accounted_newer: "accounted H D v \<Longrightarrow> newer_stamp m t v \<Longrightarrow> H n m t' \<Longrightarrow> t' < t"
  by (drule (1) accounted_tracked) (fastforce simp: newer_stamp_def)

lemma accounted_started_tracked:
  assumes "accounted H D v" "newer_stamp m t v" "H n m' t'"
  shows "\<exists>b u. started m t v m' = Some (b, Some u) \<and> t' \<le> u \<and> (t' = u \<longrightarrow> b)"
proof (cases "m' = m")
  case True
  then have "t' < t" using accounted_newer [OF assms(1,2), of n] assms(3) by simp
  with True show ?thesis by (auto simp: started_def)
next
  case False
  then show ?thesis using accounted_tracked [OF assms(1,3)] by (simp add: started_def)
qed

lemma accounted_started:
  assumes "accounted H D v" "newer_stamp m t v" "\<And>m' t'. \<not> H n m' t'"
    and H': "\<And>n' m' t'. H' n' m' t' \<longleftrightarrow> n' = n \<and> m' = m \<and> t' = t \<or> H n' m' t'"
  shows "accounted H' (D - {m}) (started m t v)"
proof (rule accountedI)
  note old = accounted_newer [OF assms(1,2)]
  fix n' m' t' assume h: "H' n' m' t'"
  show "\<exists>b u. started m t v m' = Some (b, Some u) \<and> t' \<le> u \<and> (t' = u \<longrightarrow> b)"
  proof (cases "m' = m \<and> t' = t")
    case True
    then show ?thesis by (auto simp: started_def)
  next
    case False
    with h have "H n' m' t'" unfolding H' by blast
    then show ?thesis by (rule accounted_started_tracked [OF assms(1,2)])
  qed
next
  note old = accounted_newer [OF assms(1,2)]
  fix n1 n2 m' t' assume h: "H' n1 m' t'" "H' n2 m' t'"
  show "n1 = n2"
  proof (cases "m' = m \<and> t' = t")
    case True
    then have "\<not> H n1 m' t'" "\<not> H n2 m' t'" using old by blast+
    with h show ?thesis unfolding H' by blast
  next
    case False
    with h have "H n1 m' t'" "H n2 m' t'" unfolding H' by blast+
    then show ?thesis by (rule accounted_unique [OF assms(1)])
  qed
next
  fix m' t' assume "started m t v m' = Some (True, t')" "m' \<notin> D - {m}"
  then show "\<exists>n u. t' = Some u \<and> H' n m' u"
    unfolding H' using accounted_held [OF assms(1), of m' t'] by (auto simp: started_def split: if_splits)
qed

lemma accounted_doubtful:
  assumes "accounted H D v" "newer_stamp m t v" "m \<in> E"
  shows "accounted H (D \<union> E) (started m t v)"
proof (rule accountedI)
  fix n' m' t' assume "H n' m' t'"
  then show "\<exists>b u. started m t v m' = Some (b, Some u) \<and> t' \<le> u \<and> (t' = u \<longrightarrow> b)"
    by (rule accounted_started_tracked [OF assms(1,2)])
next
  fix n1 n2 m' t' assume "H n1 m' t'" "H n2 m' t'"
  then show "n1 = n2" by (rule accounted_unique [OF assms(1)])
next
  fix m' t' assume "started m t v m' = Some (True, t')" "m' \<notin> D \<union> E"
  then show "\<exists>n u. t' = Some u \<and> H n m' u"
    using accounted_held [OF assms(1), of m' t'] assms(3) by (auto simp: started_def split: if_splits)
qed

lemma accounted_ended:
  assumes "accounted H D v" "H n m t" and H': "\<And>n' m' t'. H' n' m' t' \<longleftrightarrow> n' \<noteq> n \<and> H n' m' t'"
    and only: "\<And>m' t'. H n m' t' \<Longrightarrow> m' = m \<and> t' = t"
  shows "accounted H' D (ended m t v)"
proof (rule accountedI)
  fix n' m' t' assume h: "H' n' m' t'"
  then have "\<not> (m' = m \<and> t' = t)"
    unfolding H' using accounted_unique [OF assms(1,2), of n'] by auto
  with h show "\<exists>b u. ended m t v m' = Some (b, Some u) \<and> t' \<le> u \<and> (t' = u \<longrightarrow> b)"
    unfolding H' using accounted_tracked [OF assms(1), of n' m' t'] by (auto simp: ended_def)
next
  fix n1 n2 m' t' assume "H' n1 m' t'" "H' n2 m' t'"
  then show "n1 = n2" unfolding H' using accounted_unique [OF assms(1)] by auto
next
  fix m' t' assume on: "ended m t v m' = Some (True, t')" "m' \<notin> D"
  then have "v m' = Some (True, t')" "\<not> (m' = m \<and> t' = Some t)"
    by (auto simp: ended_def split: if_splits)
  with accounted_held [OF assms(1) this(1) on(2)] only show "\<exists>n' u. t' = Some u \<and> H' n' m' u"
    unfolding H' by fastforce
qed

lemma accounted_released:
  assumes "accounted H D v" and H': "\<And>n' m' t'. H' n' m' t' \<longleftrightarrow> n' \<noteq> n \<and> H n' m' t'"
    and "\<And>m' t'. H n m' t' \<Longrightarrow> m' \<in> E"
  shows "accounted H' (D \<union> E) v"
proof (rule accountedI)
  fix m' t' assume "v m' = Some (True, t')" "m' \<notin> D \<union> E"
  with accounted_held [OF assms(1), of m' t'] assms(3) show "\<exists>n' u. t' = Some u \<and> H' n' m' u"
    unfolding H' by fastforce
qed (use accounted_tracked [OF assms(1)] accounted_unique [OF assms(1)] in \<open>unfold H', blast+\<close>)

lemma accounted_mono: "accounted H D v \<Longrightarrow> D \<subseteq> D' \<Longrightarrow> accounted H D' v"
  unfolding accounted_def by blast

lemma accounted_more: "accounted H D v \<Longrightarrow> accounted H (D \<union> E) v"
  by (rule accounted_mono) blast+

lemma accounted_enrolled:
  assumes "accounted H D v" "v m = None"
  shows "accounted H D (v(m \<mapsto> (False, None)))"
proof (rule accountedI)
  fix n' m' t' assume "H n' m' t'"
  then show "\<exists>b u. (v(m \<mapsto> (False, None))) m' = Some (b, Some u) \<and> t' \<le> u \<and> (t' = u \<longrightarrow> b)"
    using accounted_tracked [OF assms(1), of n' m' t'] assms(2) by auto
qed (use accounted_unique [OF assms(1)] accounted_held [OF assms(1)] in \<open>auto split: if_splits\<close>)

section \<open>The invariant\<close>

text \<open>What a step of a stream does to the view and to the session it holds.\<close>

lemma find_identity_view:
  "find_identity ext store c creds s = (r, s') \<Longrightarrow> view s' = view s \<and> (ok s \<longrightarrow> ok s')"
  by (auto simp: find_identity_def split: if_splits prod.splits sum.splits option.splits
      dest: find_view find_ok)

lemma receive_message_view:
  "receive_message ext tstore c sess m s = (k', s') \<Longrightarrow>
     view s' = view s \<and> (ok s \<longrightarrow> ok s') \<and> conn_session k' = Some sess"
  by (auto simp: receive_message_def record_sample_def
      split: if_splits prod.splits sum.splits option.splits dest: record_view record_ok)

lemma close_view:
  assumes "close_session store c sess s = (x, s')"
  shows "(\<exists>m. key (sess_machine_id sess) = Some m \<and>
      view s' = ended m (stamp (sess_connected_at sess)) (view s)) \<or>
    view s' = view s \<and> (\<exists>e s''. end_session store c sess s = (Some e, s''))"
  using assms
  by (auto simp: close_session_def split: prod.splits option.splits dest: end_view end_error)

lemma conn_step_ok:
  assumes "ok s" "conn_step ext store tstore reply ev k s = (k', s')"
  shows "ok s'"
proof (cases k)
  case (Receiving sess)
  with assms show ?thesis by (auto split: sum.splits dest: receive_message_view)
next
  case (Touching c sess)
  with assms record_activity_keeps_ok [OF assms(1), of c sess] show ?thesis
    by (auto split: prod.splits option.splits)
next
  case (Closing sess e)
  with assms close_session_keeps_ok [OF assms(1), of close_ctx sess] show ?thesis
    by (auto split: prod.splits)
next
  case (Closing_Eof sess)
  with assms close_session_keeps_ok [OF assms(1), of close_ctx sess] show ?thesis
    by (auto split: prod.splits option.splits)
qed (use assms in \<open>auto split: sum.splits option.splits prod.splits dest: find_identity_view start_ok\<close>)

lemma conn_step_view:
  assumes "ok s" "conn_step ext store tstore reply ev k s = (k', s')"
  obtains (quiet) "view s' = view s" "conn_session k' = conn_session k"
  | (opened) sess m where "conn_session k = None" "conn_session k' = Some sess"
      "key (sess_machine_id sess) = Some m" "fresh_stamp (stamp (sess_connected_at sess)) (view s)"
      "view s' = started m (stamp (sess_connected_at sess)) (view s)"
  | (doubtful) m t where "conn_session k = None" "conn_session k' = None"
      "m \<in> failed_machines key store k s" "fresh_stamp t (view s)" "view s' = started m t (view s)"
  | (ended) sess m where "conn_session k = Some sess" "conn_session k' = None"
      "key (sess_machine_id sess) = Some m"
      "view s' = ended m (stamp (sess_connected_at sess)) (view s)"
  | (released) sess where "conn_session k = Some sess" "conn_session k' = None" "view s' = view s"
      "\<And>m. key (sess_machine_id sess) = Some m \<Longrightarrow> m \<in> failed_machines key store k s"
proof (cases k)
  case (Starting c ident)
  obtain r s1 where st: "start_session store c (id_machine_id ident) s = (r, s1)" by force
  show thesis
  proof (cases r)
    case (Inl e)
    with st Starting assms(2) have "k' = Done (Some (open_status (wrap_error ''start presence session: '' e)))"
      "s' = s1" by simp_all
    with start_error [OF assms(1) st [unfolded Inl]] quiet doubtful Starting st Inl show thesis
      by (auto simp: failed_machines_def)
  next
    case (Inr t)
    with st Starting assms(2) start_view [OF assms(1) st [unfolded Inr]] opened show thesis
      by auto
  qed
next
  case (Receiving sess)
  with assms(2) have "view s' = view s" "conn_session k' = conn_session k"
    by (auto split: sum.splits if_splits dest: receive_message_view)
  then show thesis by (rule quiet)
next
  case (Touching c sess)
  with assms(2) have "view s' = view s" "conn_session k' = conn_session k"
    by (auto simp: record_activity_def split: prod.splits option.splits dest: touch_view)
  then show thesis by (rule quiet)
next
  case (Closing sess e)
  with assms(2) have "k' = Done (Some e)" "\<exists>x. close_session store close_ctx sess s = (x, s')"
    by (auto split: prod.splits)
  with close_view [of close_ctx sess s _ s'] Closing ended released show thesis
    by (fastforce simp: failed_machines_def)
next
  case (Closing_Eof sess)
  with assms(2) have "\<exists>r. k' = Done r" "\<exists>x. close_session store close_ctx sess s = (x, s')"
    by (auto split: prod.splits option.splits)
  with close_view [of close_ctx sess s _ s'] Closing_Eof ended released show thesis
    by (fastforce simp: failed_machines_def)
next
  case Awaiting
  with assms(2) have "view s' = view s" "conn_session k' = conn_session k"
    by (auto split: sum.splits option.splits prod.splits dest: find_identity_view)
  then show thesis by (rule quiet)
next
  case (Done r)
  with assms(2) show thesis by (intro quiet) simp_all
qed

definition streams_ok :: "('k, 's) streams_state \<Rightarrow> bool" where
  "streams_ok = (\<lambda>(cs, D, s). ok s \<and> accounted (holds cs) D (view s))"

lemma holds_upd:
  "holds (cs(n := k')) n' m t \<longleftrightarrow>
     (if n' = n then \<exists>sess. conn_session k' = Some sess \<and> key (sess_machine_id sess) = Some m
        \<and> stamp (sess_connected_at sess) = t
      else holds cs n' m t)"
  by (simp add: holds_def)

lemma stream_step_ok:
  assumes "streams_ok (cs, D, s)" "conn_step ext store tstore reply ev (cs n) s = (k', s')"
  shows "streams_ok (cs(n := k'), D \<union> failed_machines key store (cs n) s, s')"
proof -
  let ?E = "failed_machines key store (cs n) s" and ?H' = "holds (cs(n := k'))"
  have ok: "ok s" and acc: "accounted (holds cs) D (view s)"
    using assms(1) by (simp_all add: streams_ok_def)
  note more = accounted_more [of _ D _ ?E]
  have "accounted ?H' (D \<union> ?E) (view s')"
    using ok assms(2)
  proof (cases rule: conn_step_view)
    case quiet
    then have "?H' = holds cs" by (auto simp: holds_upd holds_def fun_eq_iff)
    with acc quiet(1) show ?thesis by (simp add: more)
  next
    case (opened sess m)
    show ?thesis
      unfolding opened(5)
      by (rule accounted_mono, rule accounted_started [OF acc fresh_newer [OF opened(4)], of n])
         (use opened(1-3) in \<open>auto simp: holds_upd holds_def\<close>)
  next
    case (doubtful m t)
    then have "?H' = holds cs" by (auto simp: holds_upd holds_def fun_eq_iff)
    with accounted_doubtful [OF acc fresh_newer [OF doubtful(4)] doubtful(3)] doubtful(5)
    show ?thesis by simp
  next
    case (ended sess m)
    show ?thesis
      unfolding ended(4)
      by (rule more, rule accounted_ended [OF acc, of n])
         (use ended(1-3) in \<open>auto simp: holds_upd holds_def\<close>)
  next
    case (released sess)
    show ?thesis
      unfolding released(3)
      by (rule accounted_released [OF acc, of _ n])
         (use released(1,2,4) in \<open>auto simp: holds_upd holds_def\<close>)
  qed
  with conn_step_ok [OF ok assms(2)] show ?thesis by (simp add: streams_ok_def)
qed

lemma server_step_ok:
  "server_step ext store tstore estore reply key x y \<Longrightarrow> streams_ok x \<Longrightarrow> streams_ok y"
proof (induction rule: server_step.induct)
  case (stream ev cs n s k' s' D)
  then show ?case by (rule stream_step_ok [rotated])
next
  case (enrollment c se s res s' cs D)
  then show ?case
    using enroll_view [OF enrollment(1)] enroll_ok [OF _ enrollment(1)]
    by (auto simp: streams_ok_def accounted_enrolled)
qed

definition nobody_online :: "'s \<Rightarrow> bool" where
  "nobody_online s \<longleftrightarrow> (\<forall>m b t. view s m = Some (b, t) \<longrightarrow> \<not> b)"

lemma server_reachable_ok:
  assumes "server_reachable ext store tstore estore reply key s0 x" "ok s0" "nobody_online s0"
  shows "streams_ok x"
  using assms(1)
proof induction
  case start
  have "\<not> holds (\<lambda>_. Awaiting) n m t" for n m t by (simp add: holds_def)
  with assms(2,3) show ?case by (auto simp: streams_ok_def accounted_def nobody_online_def)
next
  case (step x y)
  from step(2,3) show ?case by (rule server_step_ok)
qed

text \<open>What the status of a machine says about the streams.\<close>

lemma accounted_status:
  assumes "accounted (holds cs) D v" "m \<notin> D"
  shows "(\<exists>t. v m = Some (True, t)) \<longleftrightarrow> (\<exists>n b t. v m = Some (b, Some t) \<and> holds cs n m t)"
  using accounted_held [OF assms(1) _ assms(2)] accounted_tracked [OF assms(1), of _ m] by fastforce

lemma status_accurate:
  assumes "server_reachable ext store tstore estore reply key s0 (cs, D, s)" "ok s0" "nobody_online s0"
    and "m \<notin> D"
  shows "(\<exists>t. view s m = Some (True, t)) \<longleftrightarrow> (\<exists>n b t. view s m = Some (b, Some t) \<and> holds cs n m t)"
  using server_reachable_ok [OF assms(1-3)] accounted_status [OF _ assms(4)] by (simp add: streams_ok_def)

end

section \<open>The whole handler\<close>

lemma stream_updates_run:
  "\<exists>evs' k. conn_run ext ps ts reply (evs, Awaiting, s)
      (evs', k, snd (stream_updates ext (presence_service ext ps) (telemetry_service ts) reply evs s)) \<and>
    (case fst (stream_updates ext (presence_service ext ps) (telemetry_service ts) reply evs s) of
       Blocked \<Rightarrow> evs' = [] \<and> in_recv k
     | Returned x \<Rightarrow> k = Done x)"
proof (cases evs)
  case Nil
  then show ?thesis by (auto simp: stream_updates_def)
next
  case (Cons ev rest)
  obtain k s1 where st: "conn_step ext ps ts reply ev Awaiting s = (k, s1)" by force
  obtain x s2 where a: "authenticate_stream (presence_service ext ps) ev s = (x, s2)" by force
  have opened: "conn_run ext ps ts reply (rest, k, s1)
      (rest, case x of Inl e \<Rightarrow> Done (Some e) | Inr sess \<Rightarrow> Receiving sess, s2)"
  proof (cases "\<exists>c ident. k = Starting c ident")
    case True
    then obtain c ident where k: "k = Starting c ident" by blast
    have "conn_step ext ps ts reply ev k s1
        = (case x of Inl e \<Rightarrow> Done (Some e) | Inr sess \<Rightarrow> Receiving sess, s2)"
      using st a k
      by (auto simp: authenticate_stream_def open_session_find open_status_def Let_def
          get_agent_id_def get_agent_secret_def
          split: sum.splits option.splits prod.splits if_splits)
    then show ?thesis using k by (intro run_internal [of k]) auto
  next
    case False
    with st a have "k = (case x of Inl e \<Rightarrow> Done (Some e) | Inr sess \<Rightarrow> Receiving sess)" "s1 = s2"
      by (auto simp: authenticate_stream_def open_session_find open_status_def Let_def
          get_agent_id_def get_agent_secret_def
          split: sum.splits option.splits prod.splits if_splits)
    then show ?thesis by simp
  qed
  note start = run_receive [OF _ st opened, simplified]
  show ?thesis
  proof (cases x)
    case (Inl e)
    with Cons a start show ?thesis by (auto simp: stream_updates_def)
  next
    case (Inr sess)
    obtain res s3 where f: "finish_stream (presence_service ext ps) sess
        (stream_loop ext (presence_service ext ps) (telemetry_service ts) reply sess rest s2) = (res, s3)"
      by force
    from finish_stream_run [OF f] obtain evs' k' where
      "conn_run ext ps ts reply (rest, Receiving sess, s2) (evs', k', s3)"
      "case res of Blocked \<Rightarrow> evs' = [] \<and> k' = Receiving sess | Returned x \<Rightarrow> k' = Done x"
      by blast
    with start Inr Cons a f rtranclp_trans [of "conn_trans ext ps ts reply"] show ?thesis
      by (intro exI [of _ evs'] exI [of _ k'])
         (auto simp: stream_updates_def split: handler_result.splits)
  qed
qed

section \<open>Properties\<close>

text \<open>C1: the handler in one piece is a run of the handler in steps, on every input: the same
  result, the same state, the same events consumed. So what holds of every interleaving of the
  steps of many streams holds of the code.\<close>

theorem stream_updates_steps:
  "\<exists>evs' k. conn_run ext ps ts reply (evs, Awaiting, s)
      (evs', k, snd (stream_updates ext (presence_service ext ps) (telemetry_service ts) reply evs s)) \<and>
    (case fst (stream_updates ext (presence_service ext ps) (telemetry_service ts) reply evs s) of
       Blocked \<Rightarrow> evs' = [] \<and> in_recv k
     | Returned x \<Rightarrow> k = Done x)"
  by (rule stream_updates_run)

end
