(* ===== verification/Database.thy ===== *)
theory Database
  imports Protocol
begin

text \<open>
  The PostgreSQL side of the stores: the tables of
  \<^verbatim>\<open>server/migrations/000001_create_v1_machine_schema.up.sql\<close> with their constraints, and the
  transaction calls of the driver as the stores use them. The stores' SQL statements are functions
  on these tables.

  What the server cannot see is a parameter (\<open>pg\<close>) or an oracle in the \<open>world\<close>: the clock, the
  random UUIDs, how the server reads a text parameter, and for each round trip whether it works,
  fails without effect, or takes effect although the client sees a failure (the acknowledgement
  is lost). A transaction works on its own copy of the tables, and a commit installs the copy:
  transactions of the stores take effect one after the other. Theory Transactions cuts the session
  transactions at their statements and shows that the row locks of \<open>FOR UPDATE\<close> and \<open>UPDATE\<close> keep
  what is proved of whole calls.
\<close>

type_synonym uuid = "128 word"

section \<open>Parameters\<close>

text \<open>
  \<open>pg_clock n\<close> is the n-th reading of \<open>clock_timestamp()\<close> (microseconds); \<open>pg_new_uuid n\<close> the
  n-th \<open>gen_random_uuid()\<close>; \<open>pg_uuid_in\<close> and \<open>pg_uuid_out\<close> read and print a UUID;
  \<open>pg_time_in\<close> and \<open>pg_time_out\<close> are the driver's conversions between \<open>time.Time\<close> and
  \<open>timestamptz\<close>; \<open>pg_text_ok\<close> says that a text parameter is accepted (valid UTF-8 without a zero
  byte), \<open>pg_text_length\<close> is \<open>length(trim(x))\<close>, \<open>pg_json_ok\<close> says that \<open>jsonb\<close> accepts an array of
  these strings, \<open>pg_numeric\<close> converts to \<open>NUMERIC(5, 2)\<close>, in hundredths.
\<close>

record pg =
  pg_clock :: "nat \<Rightarrow> int"
  pg_new_uuid :: "nat \<Rightarrow> uuid"
  pg_uuid_in :: "string \<Rightarrow> uuid option"
  pg_uuid_out :: "uuid \<Rightarrow> string"
  pg_time_in :: "go_time \<Rightarrow> int"
  pg_time_out :: "int \<Rightarrow> go_time"
  pg_text_ok :: "string \<Rightarrow> bool"
  pg_text_length :: "string \<Rightarrow> nat"
  pg_json_ok :: "string list \<Rightarrow> bool"
  pg_numeric :: "float64 \<Rightarrow> int option"

text \<open>
  What the stores rely on of these, all documented behaviour of PostgreSQL and the driver: the
  clock moves forward between readings, UUIDs and timestamps survive the way out and back in, a
  printed UUID is not blank, a trimmed non-empty text has between one and as many characters as
  bytes, \<open>jsonb\<close> accepts what the text type accepts, and a
  percentage between 0 and 100 rounds to one.
\<close>

definition pg_lawful :: "pg \<Rightarrow> bool" where
  "pg_lawful p \<longleftrightarrow>
     strict_mono (pg_clock p) \<and>
     (\<forall>u. pg_uuid_in p (pg_uuid_out p u) = Some u) \<and>
     (\<forall>u. trim_space (pg_uuid_out p u) \<noteq> '''') \<and>
     (\<forall>t. pg_time_in p (pg_time_out p t) = t) \<and>
     (\<forall>s. s \<noteq> '''' \<longrightarrow> trim_space s = s \<longrightarrow> pg_text_ok p s \<longrightarrow>
        1 \<le> pg_text_length p s \<and> pg_text_length p s \<le> length s) \<and>
     (\<forall>cs. (\<forall>s \<in> set cs. pg_text_ok p s) \<longrightarrow> pg_json_ok p cs) \<and>
     (\<forall>x. f64_between_0_100 x \<longrightarrow>
        (\<exists>n. pg_numeric p x = Some n \<and> 0 \<le> n \<and> n \<le> 10000))"

lemma pg_lawfulD:
  assumes "pg_lawful p"
  shows "strict_mono (pg_clock p)"
    "pg_uuid_in p (pg_uuid_out p u) = Some u" "trim_space (pg_uuid_out p u) \<noteq> ''''"
    "pg_time_in p (pg_time_out p t) = t"
    "s \<noteq> '''' \<Longrightarrow> trim_space s = s \<Longrightarrow> pg_text_ok p s \<Longrightarrow>
       1 \<le> pg_text_length p s \<and> pg_text_length p s \<le> length s"
    "(\<And>s. s \<in> set cs \<Longrightarrow> pg_text_ok p s) \<Longrightarrow> pg_json_ok p cs"
    "f64_between_0_100 x \<Longrightarrow> \<exists>n. pg_numeric p x = Some n \<and> 0 \<le> n \<and> n \<le> 10000"
  using assms by (auto simp: pg_lawful_def)

section \<open>Tables\<close>

datatype machine_status = Online | Offline | Degraded | Unknown

record machine_row =
  m_name :: string
  m_hostname :: string
  m_operating_system :: string
  m_os_version :: string
  m_architecture :: string
  m_agent_version :: string
  m_status :: machine_status
  m_registered_at :: int
  m_last_seen_at :: "int option"
  m_last_connected_at :: "int option"
  m_last_disconnected_at :: "int option"
  m_updated_at :: int

record identity_row =
  i_id :: uuid
  i_machine_id :: uuid
  i_agent_id :: uuid
  i_credential_hash :: "byte list"
  i_capabilities :: "string list"
  i_created_at :: int
  i_last_connected_at :: "int option"
  i_last_rotated_at :: "int option"
  i_revoked_at :: "int option"

record event_row =
  e_id :: nat
  e_machine_id :: uuid
  e_status :: machine_status
  e_occurred_at :: int

record sample_row =
  t_received_at :: int
  t_cpu_usage_percent :: int
  t_memory_total_bytes :: int64
  t_memory_used_bytes :: int64
  t_disk_total_bytes :: int64
  t_disk_used_bytes :: int64
  t_uptime_seconds :: int64

text \<open>Tables with their primary keys: \<open>machines(id)\<close> and \<open>telemetry_samples(machine_id,
  collected_at)\<close> as maps, identities and presence events as lists in insertion order.\<close>

record tables =
  tb_machines :: "uuid \<rightharpoonup> machine_row"
  tb_identities :: "identity_row list"
  tb_events :: "event_row list"
  tb_samples :: "uuid \<times> int \<rightharpoonup> sample_row"

datatype fault = Works | Fails | Ack_Lost

record world =
  w_db :: tables
  w_clock :: nat
  w_uuids :: nat
  w_event_seq :: nat
  w_faults :: "fault list"

definition empty_tables :: tables where
  "empty_tables = \<lparr>tb_machines = Map.empty, tb_identities = [], tb_events = [],
     tb_samples = Map.empty\<rparr>"

definition empty_world :: "fault list \<Rightarrow> world" where
  "empty_world fs = \<lparr>w_db = empty_tables, w_clock = 0, w_uuids = 0, w_event_seq = 0,
     w_faults = fs\<rparr>"

text \<open>The row the lookup by agent id finds.\<close>

definition active_identity :: "uuid \<Rightarrow> identity_row list \<Rightarrow> identity_row option" where
  "active_identity aid = find (\<lambda>i. i_agent_id i = aid \<and> i_revoked_at i = None)"

section \<open>Check constraints\<close>

definition machine_check :: "pg \<Rightarrow> machine_row \<Rightarrow> bool" where
  "machine_check p m \<longleftrightarrow>
     1 \<le> pg_text_length p (m_name m) \<and> pg_text_length p (m_name m) \<le> 255 \<and>
     1 \<le> pg_text_length p (m_hostname m) \<and> pg_text_length p (m_hostname m) \<le> 255 \<and>
     0 < pg_text_length p (m_operating_system m) \<and> 0 < pg_text_length p (m_os_version m) \<and>
     0 < pg_text_length p (m_architecture m) \<and> 0 < pg_text_length p (m_agent_version m)"

definition sample_check :: "sample_row \<Rightarrow> bool" where
  "sample_check t \<longleftrightarrow>
     0 \<le> t_cpu_usage_percent t \<and> t_cpu_usage_percent t \<le> 10000 \<and>
     0 \<le> sint (t_memory_total_bytes t) \<and>
     0 \<le> sint (t_memory_used_bytes t) \<and>
     sint (t_memory_used_bytes t) \<le> sint (t_memory_total_bytes t) \<and>
     0 \<le> sint (t_disk_total_bytes t) \<and>
     0 \<le> sint (t_disk_used_bytes t) \<and>
     sint (t_disk_used_bytes t) \<le> sint (t_disk_total_bytes t) \<and>
     0 \<le> sint (t_uptime_seconds t)"

definition identity_check :: "tables \<Rightarrow> identity_row \<Rightarrow> bool" where
  \<comment> \<open>foreign key, \<open>agent_id\<close> unique, one active identity per machine\<close>
  "identity_check tb i \<longleftrightarrow>
     i_machine_id i \<in> dom (tb_machines tb) \<and>
     (\<forall>j \<in> set (tb_identities tb). i_agent_id j \<noteq> i_agent_id i) \<and>
     (\<forall>j \<in> set (tb_identities tb). i_id j \<noteq> i_id i) \<and>
     (i_revoked_at i = None \<longrightarrow>
        (\<forall>j \<in> set (tb_identities tb). i_machine_id j = i_machine_id i \<longrightarrow> i_revoked_at j \<noteq> None))"

section \<open>Round trips and transactions\<close>

definition canceled :: go_error where
  "canceled = External ''context canceled''"

definition db_failure :: go_error where
  "db_failure = External ''database failure''"

definition constraint_failure :: go_error where
  "constraint_failure = External ''constraint violation''"

definition bad_parameter :: go_error where
  "bad_parameter = External ''invalid parameter''"

definition round_trip :: "ctx \<Rightarrow> world \<Rightarrow> (go_error + fault) \<times> world" where
  "round_trip c w =
     (if ctx_done c then (Inl canceled, w)
      else case w_faults w of
             [] \<Rightarrow> (Inr Works, w)
           | f # fs \<Rightarrow> (Inr f, w\<lparr>w_faults := fs\<rparr>))"

text \<open>A statement inside a transaction either reaches the server and answers, or fails.\<close>

definition tx_round_trip :: "ctx \<Rightarrow> world \<Rightarrow> go_error option \<times> world" where
  "tx_round_trip c w =
     (case round_trip c w of
        (Inl e, w) \<Rightarrow> (Some e, w)
      | (Inr Works, w) \<Rightarrow> (None, w)
      | (Inr _, w) \<Rightarrow> (Some db_failure, w))"

definition read_clock :: "pg \<Rightarrow> world \<Rightarrow> int \<times> world" where
  "read_clock p w = (pg_clock p (w_clock w), w\<lparr>w_clock := Suc (w_clock w)\<rparr>)"

definition draw_uuid :: "pg \<Rightarrow> world \<Rightarrow> uuid \<times> world" where
  "draw_uuid p w = (pg_new_uuid p (w_uuids w), w\<lparr>w_uuids := Suc (w_uuids w)\<rparr>)"

record tx =
  tx_now :: int
  tx_tables :: tables

definition begin_tx :: "pg \<Rightarrow> ctx \<Rightarrow> world \<Rightarrow> (go_error + tx) \<times> world" where
  "begin_tx p c w =
     (case tx_round_trip c w of
        (Some e, w) \<Rightarrow> (Inl e, w)
      | (None, w) \<Rightarrow>
          (case read_clock p w of (now, w) \<Rightarrow> (Inr \<lparr>tx_now = now, tx_tables = w_db w\<rparr>, w)))"

definition install :: "ctx \<Rightarrow> tables \<Rightarrow> world \<Rightarrow> go_error option \<times> world" where
  \<comment> \<open>a commit, or a statement outside a transaction, that would leave these tables\<close>
  "install c tb w =
     (case round_trip c w of
        (Inl e, w) \<Rightarrow> (Some e, w)
      | (Inr Works, w) \<Rightarrow> (None, w\<lparr>w_db := tb\<rparr>)
      | (Inr Fails, w) \<Rightarrow> (Some db_failure, w)
      | (Inr Ack_Lost, w) \<Rightarrow> (Some db_failure, w\<lparr>w_db := tb\<rparr>))"

definition commit_tx :: "ctx \<Rightarrow> tx \<Rightarrow> world \<Rightarrow> go_error option \<times> world" where
  "commit_tx c tx w = install c (tx_tables tx) w"

section \<open>Frames\<close>

lemma round_trip_frame:
  "round_trip c w = (r, w') \<Longrightarrow>
     w_db w' = w_db w \<and> w_clock w' = w_clock w \<and> w_uuids w' = w_uuids w
     \<and> w_event_seq w' = w_event_seq w"
  by (auto simp: round_trip_def split: if_splits list.splits)

lemma tx_round_trip_frame:
  "tx_round_trip c w = (r, w') \<Longrightarrow>
     w_db w' = w_db w \<and> w_clock w' = w_clock w \<and> w_uuids w' = w_uuids w
     \<and> w_event_seq w' = w_event_seq w"
  by (auto simp: tx_round_trip_def split: prod.splits sum.splits fault.splits dest: round_trip_frame)

lemma begin_tx_frame:
  "begin_tx p c w = (r, w') \<Longrightarrow>
     w_db w' = w_db w \<and> w_uuids w' = w_uuids w \<and> w_event_seq w' = w_event_seq w
     \<and> w_clock w \<le> w_clock w' \<and> w_clock w' \<le> Suc (w_clock w)
     \<and> (\<forall>tx. r = Inr tx \<longrightarrow> tx_tables tx = w_db w \<and> tx_now tx = pg_clock p (w_clock w)
          \<and> w_clock w' = Suc (w_clock w))"
  by (auto simp: begin_tx_def read_clock_def split: prod.splits option.splits
      dest!: tx_round_trip_frame)

lemma install_cases:
  "install c tb w = (r, w') \<Longrightarrow>
     w_clock w' = w_clock w \<and> w_uuids w' = w_uuids w \<and> w_event_seq w' = w_event_seq w
     \<and> (w_db w' = tb \<or> r \<noteq> None \<and> w_db w' = w_db w)"
  by (auto simp: install_def split: prod.splits sum.splits fault.splits dest!: round_trip_frame)

text \<open>With no fault pending and a live context every round trip works.\<close>

lemma round_trip_works [simp]:
  "\<not> ctx_done c \<Longrightarrow> w_faults w = [] \<Longrightarrow> round_trip c w = (Inr Works, w)"
  by (simp add: round_trip_def)

lemma tx_round_trip_works [simp]:
  "\<not> ctx_done c \<Longrightarrow> w_faults w = [] \<Longrightarrow> tx_round_trip c w = (None, w)"
  by (simp add: tx_round_trip_def)

lemma begin_tx_works [simp]:
  "\<not> ctx_done c \<Longrightarrow> w_faults w = [] \<Longrightarrow> begin_tx p c w =
     (Inr \<lparr>tx_now = pg_clock p (w_clock w), tx_tables = w_db w\<rparr>, w\<lparr>w_clock := Suc (w_clock w)\<rparr>)"
  by (simp add: begin_tx_def read_clock_def)

lemma install_works [simp]:
  "\<not> ctx_done c \<Longrightarrow> w_faults w = [] \<Longrightarrow> install c tb w = (None, w\<lparr>w_db := tb\<rparr>)"
  by (simp add: install_def)

lemma install_canceled [simp]: "ctx_done c \<Longrightarrow> install c tb w = (Some canceled, w)"
  by (simp add: install_def round_trip_def)

lemma begin_tx_canceled [simp]: "ctx_done c \<Longrightarrow> begin_tx p c w = (Inl canceled, w)"
  by (simp add: begin_tx_def tx_round_trip_def round_trip_def)

end
