(* ===== verification/Sample_Platform.thy ===== *)
theory Sample_Platform
  imports Database Presence
begin

text \<open>
  One concrete platform that has every documented property the development assumes of the
  database, the driver and the third-party packages. The witnesses of the properties run on it.
\<close>

definition bits_text :: "uuid \<Rightarrow> string" where
  "bits_text u = map (\<lambda>i. if bit u i then CHR ''1'' else CHR ''0'') [0..<128]"

definition text_bits :: "string \<Rightarrow> uuid option" where
  "text_bits s =
     (if length s = 128 \<and> set s \<subseteq> {CHR ''0'', CHR ''1''}
      then Some (horner_sum of_bool 2 (map (\<lambda>c. c = CHR ''1'') s)) else None)"

definition rounded_percent :: "float64 \<Rightarrow> int option" where
  "rounded_percent x =
     (if f64_between_0_100 x then Some ((f64_scaled x * 100 + 2 ^ 1073) div 2 ^ 1074) else None)"

definition sample_pg :: pg where
  "sample_pg = \<lparr>pg_clock = int, pg_new_uuid = of_nat, pg_uuid_in = text_bits,
     pg_uuid_out = bits_text, pg_time_in = (\<lambda>t. t div 1000), pg_time_out = (\<lambda>t. t * 1000),
     pg_text_ok = (\<lambda>s. char_of (0::nat) \<notin> set s), pg_text_length = length,
     pg_json_ok = list_all (\<lambda>s. char_of (0::nat) \<notin> set s), pg_numeric = rounded_percent\<rparr>"

definition sample_externals :: externals where
  "sample_externals = \<lparr>ext_uuid_valid = (\<lambda>s. text_bits s \<noteq> None),
     ext_ts_valid = (\<lambda>ts. 0 \<le> sint (ts_nanos ts) \<and> sint (ts_nanos ts) < 1000000000),
     ext_ts_time = (\<lambda>ts. (sint (ts_seconds ts) + 62135596800) * 1000000000 + sint (ts_nanos ts))\<rparr>"

lemma text_bits_text: "text_bits (bits_text u) = Some u"
proof -
  have "map (\<lambda>c. c = CHR ''1'') (bits_text u) = map (bit u) [0..<128]"
    by (simp add: bits_text_def comp_def)
  then have "horner_sum of_bool 2 (map (\<lambda>c. c = CHR ''1'') (bits_text u)) = take_bit 128 u"
    by (simp only: horner_sum_bit_eq_take_bit)
  moreover have "take_bit 128 u = u"
    by (rule take_bit_word_eq_self) simp
  ultimately show ?thesis
    by (auto simp: text_bits_def bits_text_def)
qed

lemma bits_text_alphabet: "set (bits_text u) \<subseteq> set url_alphabet"
  by (auto simp: bits_text_def url_alphabet_def)

lemma bits_text_not_blank: "trim_space (bits_text u) \<noteq> ''''"
proof -
  have "trim_space (bits_text u) = bits_text u"
    by (rule trim_space_alphabet) (rule bits_text_alphabet)
  moreover have "length (bits_text u) = 128" by (simp add: bits_text_def)
  ultimately show ?thesis by (metis list.size(3) zero_neq_numeral)
qed

lemma rounded_percent_range:
  assumes "f64_between_0_100 x"
  shows "\<exists>n. rounded_percent x = Some n \<and> 0 \<le> n \<and> n \<le> 10000"
proof -
  define q :: int where "q = 2 ^ 1073"
  have q: "0 < q" "(2::int) ^ 1074 = 2 * q" by (simp_all add: q_def)
  have s: "0 \<le> f64_scaled x" "f64_scaled x \<le> 200 * q"
    using assms q(2) by (simp_all add: f64_between_0_100_def)
  then have "(f64_scaled x * 100 + q) div (2 * q) \<le> (20000 * q + q) div (2 * q)"
    using q by (intro zdiv_mono1) simp_all
  also have "(20000 * q + q) div (2 * q) = 10000"
    using q(1) by (intro int_div_pos_eq [of _ _ _ q]) simp_all
  finally have "(f64_scaled x * 100 + q) div (2 * q) \<le> 10000" .
  moreover have "0 \<le> (f64_scaled x * 100 + q) div (2 * q)"
    using s q(1) by (intro div_int_pos_iff [THEN iffD2]) simp_all
  ultimately show ?thesis
    unfolding rounded_percent_def q(2) q_def [symmetric] if_P [OF assms] by blast
qed

lemma sample_pg_lawful: "pg_lawful sample_pg"
  unfolding pg_lawful_def sample_pg_def
  by (auto simp: text_bits_text bits_text_not_blank rounded_percent_range list_all_iff
      strict_mono_def intro: Suc_leI)

section \<open>A small database\<close>

text \<open>One enrolled machine that has never connected, its identity, and the credentials that match.\<close>

definition demo_machine :: machine_row where
  "demo_machine = \<lparr>m_name = ''host'', m_hostname = ''host'', m_operating_system = ''linux'',
     m_os_version = ''6.1'', m_architecture = ''amd64'', m_agent_version = ''0.1'',
     m_status = Unknown, m_registered_at = 3, m_last_seen_at = None,
     m_last_connected_at = None, m_last_disconnected_at = None, m_updated_at = 3\<rparr>"

definition demo_identity :: identity_row where
  "demo_identity = \<lparr>i_id = 3, i_machine_id = 1, i_agent_id = 2,
     i_credential_hash = sha256 (string_bytes ''secret''), i_capabilities = [],
     i_created_at = 3, i_last_connected_at = None, i_last_rotated_at = None, i_revoked_at = None\<rparr>"

definition demo_world :: world where
  "demo_world = (empty_world [])\<lparr>w_clock := 10, w_uuids := 3,
     w_db := empty_tables\<lparr>tb_machines := [1 \<mapsto> demo_machine], tb_identities := [demo_identity]\<rparr>\<rparr>"

definition demo_credentials :: credentials where
  "demo_credentials = \<lparr>cred_agent_id = bits_text 2, cred_secret = ''secret''\<rparr>"

lemma sample_uuid [simp]: "pg_uuid_in sample_pg (bits_text u) = Some u"
  "pg_uuid_out sample_pg u = bits_text u"
  by (simp_all add: sample_pg_def text_bits_text)

lemma sample_time [simp]: "pg_time_in sample_pg (pg_time_out sample_pg t) = t"
  "pg_clock sample_pg n = int n"
  by (simp_all add: sample_pg_def)

lemma secret_not_blank: "trim_space ''secret'' \<noteq> ''''"
proof -
  have "trim_space ''secret'' = ''secret''"
    by (rule trim_space_alphabet) (simp add: url_alphabet_def)
  then show ?thesis by simp
qed

lemma demo_presentable: "presentable sample_externals demo_credentials"
  by (simp add: presentable_def demo_credentials_def sample_externals_def text_bits_text
      secret_not_blank)

lemma demo_facts [simp]:
  "w_faults demo_world = []" "w_clock demo_world = 10" "w_event_seq demo_world = 0"
  "tb_machines (w_db demo_world) = [1 \<mapsto> demo_machine]"
  "active_identity 2 (tb_identities (w_db demo_world)) = Some demo_identity"
  "i_credential_hash demo_identity = sha256 (string_bytes (cred_secret demo_credentials))"
  "i_machine_id demo_identity = 1" "i_agent_id demo_identity = 2"
  "cred_agent_id demo_credentials = bits_text 2" "m_status demo_machine = Unknown"
  "m_last_connected_at demo_machine = None"
  by (simp_all add: demo_world_def empty_world_def empty_tables_def active_identity_def
      demo_identity_def demo_credentials_def demo_machine_def)

end
