(* ===== verification/Enrollment_Store.thy ===== *)
theory Enrollment_Store
  imports Sample_Platform Enrollment
begin

text \<open>
  \<^verbatim>\<open>server/internal/repository/postgres/enrollment_store.go\<close>: one transaction that inserts the
  machine and its agent identity. Lemmas: what a success adds to the tables, and that a failure
  leaves them alone unless the commit took effect and only its acknowledgement was lost.
\<close>

section \<open>Statements\<close>

definition new_machine_row :: "stored_enrollment \<Rightarrow> int \<Rightarrow> machine_row" where
  \<comment> \<open>the inserted columns, and the defaults of the others\<close>
  "new_machine_row input now =
     \<lparr>m_name = se_hostname input, m_hostname = se_hostname input,
      m_operating_system = se_operating_system input, m_os_version = se_os_version input,
      m_architecture = se_architecture input, m_agent_version = se_agent_version input,
      m_status = Unknown, m_registered_at = now, m_last_seen_at = None,
      m_last_connected_at = None, m_last_disconnected_at = None, m_updated_at = now\<rparr>"

definition new_identity_row ::
  "stored_enrollment \<Rightarrow> uuid \<Rightarrow> uuid \<Rightarrow> uuid \<Rightarrow> int \<Rightarrow> identity_row" where
  "new_identity_row input new_id machine_id agent_id now =
     \<lparr>i_id = new_id, i_machine_id = machine_id, i_agent_id = agent_id,
      i_credential_hash = se_credential_hash input, i_capabilities = se_capabilities input,
      i_created_at = now, i_last_connected_at = None, i_last_rotated_at = None, i_revoked_at = None\<rparr>"

definition insert_machine ::
  "pg \<Rightarrow> ctx \<Rightarrow> stored_enrollment \<Rightarrow> tx \<Rightarrow> world \<Rightarrow> (go_error + uuid \<times> tx) \<times> world" where
  "insert_machine p c input tx w =
     (case tx_round_trip c w of
        (Some e, w) \<Rightarrow> (Inl e, w)
      | (None, w) \<Rightarrow>
     (case draw_uuid p w of
        (new_id, w) \<Rightarrow>
          let row = new_machine_row input (tx_now tx)
          in if \<not> (pg_text_ok p (se_hostname input) \<and> pg_text_ok p (se_operating_system input)
                  \<and> pg_text_ok p (se_os_version input) \<and> pg_text_ok p (se_architecture input)
                  \<and> pg_text_ok p (se_agent_version input))
             then (Inl bad_parameter, w)
             else if \<not> machine_check p row \<or> new_id \<in> dom (tb_machines (tx_tables tx))
             then (Inl constraint_failure, w)
             else (Inr (new_id, tx\<lparr>tx_tables := (tx_tables tx)\<lparr>tb_machines :=
                              (tb_machines (tx_tables tx))(new_id \<mapsto> row)\<rparr>\<rparr>), w)))"

definition insert_identity ::
  "pg \<Rightarrow> ctx \<Rightarrow> uuid \<Rightarrow> stored_enrollment \<Rightarrow> tx \<Rightarrow> world \<Rightarrow> (go_error + uuid \<times> tx) \<times> world" where
  "insert_identity p c machine_id input tx w =
     (case tx_round_trip c w of
        (Some e, w) \<Rightarrow> (Inl e, w)
      | (None, w) \<Rightarrow>
     (case draw_uuid p w of
        (new_id, w) \<Rightarrow>
     (case draw_uuid p w of
        (agent_id, w) \<Rightarrow>
          let row = new_identity_row input new_id machine_id agent_id (tx_now tx)
          in if \<not> pg_json_ok p (se_capabilities input) then (Inl bad_parameter, w)
             else if \<not> identity_check (tx_tables tx) row then (Inl constraint_failure, w)
             else (Inr (agent_id, tx\<lparr>tx_tables := (tx_tables tx)\<lparr>tb_identities :=
                              tb_identities (tx_tables tx) @ [row]\<rparr>\<rparr>), w))))"

section \<open>Enroll\<close>

definition pg_enroll ::
  "pg \<Rightarrow> ctx \<Rightarrow> stored_enrollment \<Rightarrow> world \<Rightarrow> (go_error + string \<times> string) \<times> world" where
  "pg_enroll p c input w =
     (case begin_tx p c w of
        (Inl e, w) \<Rightarrow> (Inl (wrap_error ''begin enrollment transaction: '' e), w)
      | (Inr tx, w) \<Rightarrow>
     (case insert_machine p c input tx w of
        (Inl e, w) \<Rightarrow> (Inl (wrap_error ''create machine: '' e), w)
      | (Inr (machine_id, tx), w) \<Rightarrow>
     (case insert_identity p c machine_id input tx w of
        (Inl e, w) \<Rightarrow> (Inl (wrap_error ''create agent identity: '' e), w)
      | (Inr (agent_id, tx), w) \<Rightarrow>
     (case commit_tx c tx w of
        (Some e, w) \<Rightarrow> (Inl (wrap_error ''commit enrollment transaction: '' e), w)
      | (None, w) \<Rightarrow> (Inr (pg_uuid_out p machine_id, pg_uuid_out p agent_id), w)))))"

definition pg_enrollment_store :: "pg \<Rightarrow> world enrollment_store" where
  "pg_enrollment_store p = \<lparr>store_enroll = pg_enroll p\<rparr>"

lemma pg_enrollment_store_simps [simp]: "store_enroll (pg_enrollment_store p) = pg_enroll p"
  by (simp add: pg_enrollment_store_def)

section \<open>What an enrollment adds\<close>

text \<open>\<open>added_enrollment\<close> relates the tables before and after: one machine row under a new key and
  one active identity of that machine with an agent id nobody has, and nothing else.\<close>

definition added_enrollment ::
  "pg \<Rightarrow> stored_enrollment \<Rightarrow> uuid \<Rightarrow> uuid \<Rightarrow> tables \<Rightarrow> tables \<Rightarrow> bool" where
  "added_enrollment p input mid aid tb tb' \<longleftrightarrow>
     mid \<notin> dom (tb_machines tb) \<and>
     (\<forall>j \<in> set (tb_identities tb). i_agent_id j \<noteq> aid) \<and>
     (\<forall>j \<in> set (tb_identities tb). i_machine_id j = mid \<longrightarrow> i_revoked_at j \<noteq> None) \<and>
     (\<exists>now iid.
        (\<forall>j \<in> set (tb_identities tb). i_id j \<noteq> iid) \<and>
        machine_check p (new_machine_row input now) \<and>
        tb' = tb\<lparr>tb_machines := (tb_machines tb)(mid \<mapsto> new_machine_row input now),
                 tb_identities := tb_identities tb @ [new_identity_row input iid mid aid now]\<rparr>)"

lemma draw_uuid_frame: "draw_uuid p w = (u, w') \<Longrightarrow>
    w_db w' = w_db w \<and> w_clock w' = w_clock w \<and> w_event_seq w' = w_event_seq w
    \<and> w_uuids w' = Suc (w_uuids w) \<and> u = pg_new_uuid p (w_uuids w)"
  by (auto simp: draw_uuid_def)

lemma insert_machine_frame:
  "insert_machine p c input tx w = (r, w') \<Longrightarrow>
     w_db w' = w_db w \<and> w_clock w' = w_clock w \<and> w_event_seq w' = w_event_seq w
     \<and> w_uuids w \<le> w_uuids w'"
  by (auto simp: insert_machine_def Let_def split: prod.splits option.splits if_splits
      dest!: tx_round_trip_frame draw_uuid_frame)

lemma insert_identity_frame:
  "insert_identity p c mid input tx w = (r, w') \<Longrightarrow>
     w_db w' = w_db w \<and> w_clock w' = w_clock w \<and> w_event_seq w' = w_event_seq w
     \<and> w_uuids w \<le> w_uuids w'"
  by (auto simp: insert_identity_def Let_def split: prod.splits option.splits if_splits
      dest!: tx_round_trip_frame draw_uuid_frame)

lemma inserts_add:
  assumes "insert_machine p c input tx w = (Inr (mid, tx1), w1)"
    and "insert_identity p c mid input tx1 w1 = (Inr (aid, tx2), w2)"
  shows "added_enrollment p input mid aid (tx_tables tx) (tx_tables tx2)"
  using assms
  by (fastforce simp: insert_machine_def insert_identity_def added_enrollment_def
      identity_check_def new_identity_row_def Let_def split: prod.splits option.splits if_splits)

lemma pg_enroll_cases:
  assumes "pg_enroll p c input w = (r, w')"
  shows "w_clock w \<le> w_clock w' \<and> w_uuids w \<le> w_uuids w' \<and> w_event_seq w' = w_event_seq w \<and>
    (w_db w' = w_db w \<and> (\<exists>e. r = Inl e) \<or>
     (\<exists>mid aid. added_enrollment p input mid aid (w_db w) (w_db w') \<and>
        ((\<exists>e. r = Inl e) \<or> r = Inr (pg_uuid_out p mid, pg_uuid_out p aid))))"
proof -
  obtain rb wb where b: "begin_tx p c w = (rb, wb)" by force
  note fb = begin_tx_frame [OF b]
  show ?thesis
  proof (cases rb)
    case (Inl e)
    with assms b fb show ?thesis by (auto simp: pg_enroll_def)
  next
    case (Inr tx)
    obtain rm wm where m: "insert_machine p c input tx wb = (rm, wm)" by force
    note fm = insert_machine_frame [OF m]
    show ?thesis
    proof (cases rm)
      case Rm: (Inl e)
      with assms b m Inr fb fm show ?thesis by (auto simp: pg_enroll_def)
    next
      case Rm: (Inr mt)
      obtain mid tx1 where mt: "mt = (mid, tx1)" by force
      obtain ri wi where i: "insert_identity p c mid input tx1 wm = (ri, wi)" by force
      note fi = insert_identity_frame [OF i]
      show ?thesis
      proof (cases ri)
        case Ri: (Inl e)
        with assms b m i Inr Rm mt fb fm fi show ?thesis by (auto simp: pg_enroll_def)
      next
        case Ri: (Inr at)
        obtain aid tx2 where at: "at = (aid, tx2)" by force
        obtain rc wc where k: "install c (tx_tables tx2) wi = (rc, wc)" by force
        have "added_enrollment p input mid aid (w_db w) (tx_tables tx2)"
          using inserts_add [of p c input tx wb mid tx1 wm aid tx2 wi] m i Rm mt Ri at fb Inr
          by simp
        with assms b m i k Inr Rm mt Ri at fb fm fi install_cases [OF k] show ?thesis
          by (auto simp: pg_enroll_def commit_tx_def split: option.splits)
      qed
    qed
  qed
qed

section \<open>The store satisfies its contract\<close>

definition pg_identities :: "world \<Rightarrow> uuid \<rightharpoonup> uuid \<times> byte list" where
  "pg_identities w = (\<lambda>k. map_option (\<lambda>i. (i_machine_id i, i_credential_hash i))
     (active_identity k (tb_identities (w_db w))))"

lemma pg_identities_db: "w_db w' = w_db w \<Longrightarrow> pg_identities w' = pg_identities w"
  by (simp add: pg_identities_def)

lemma pg_identities_added:
  assumes "added_enrollment p input mid aid (w_db w) (w_db w')"
  shows "pg_identities w aid = None \<and>
    pg_identities w' = (pg_identities w)(aid \<mapsto> (mid, se_credential_hash input))"
proof -
  have none: "active_identity aid (tb_identities (w_db w)) = None"
    using assms by (auto simp: added_enrollment_def active_identity_def find_none_iff)
  obtain iid now where "tb_identities (w_db w') =
      tb_identities (w_db w) @ [new_identity_row input iid mid aid now]"
    using assms unfolding added_enrollment_def by fastforce
  then have "active_identity k (tb_identities (w_db w')) =
      (if k = aid then Some (new_identity_row input iid mid aid now)
       else active_identity k (tb_identities (w_db w)))" for k
    using none
    by (auto simp: active_identity_def find_append new_identity_row_def split: option.split)
  with none show ?thesis
    by (auto simp: pg_identities_def new_identity_row_def)
qed

interpretation pg_enrollment: enrollment_contract "pg_enrollment_store p" pg_identities
  "pg_uuid_in p" "\<lambda>_. pg_lawful p" for p
proof (unfold_locales, unfold pg_enrollment_store_simps)
  fix c se w m a w'
  assume law: "pg_lawful p" and e: "pg_enroll p c se w = (Inr (m, a), w')"
  obtain mid aid where "added_enrollment p se mid aid (w_db w) (w_db w')"
    "m = pg_uuid_out p mid" "a = pg_uuid_out p aid"
    using pg_enroll_cases [OF e] by auto
  with pg_identities_added [OF this(1)] law show "\<exists>km ka. pg_uuid_in p m = Some km \<and>
      pg_uuid_in p a = Some ka \<and> pg_identities w ka = None \<and>
      pg_identities w' = (pg_identities w)(ka \<mapsto> (km, se_credential_hash se))"
    by (simp add: pg_lawfulD)
next
  fix c se w e w'
  assume e: "pg_enroll p c se w = (Inl e, w')"
  show "pg_identities w' = pg_identities w \<or>
      (\<exists>km ka. pg_identities w ka = None \<and>
         pg_identities w' = (pg_identities w)(ka \<mapsto> (km, se_credential_hash se)))"
    using pg_enroll_cases [OF e] by (blast dest: pg_identities_added pg_identities_db)
qed

section \<open>On a working database\<close>

text \<open>The database accepts the texts, and the next identifiers it draws are new.\<close>

definition storable :: "pg \<Rightarrow> input \<Rightarrow> bool" where
  "storable p i \<longleftrightarrow> pg_text_ok p (in_hostname i) \<and> pg_text_ok p (in_operating_system i) \<and>
     pg_text_ok p (in_os_version i) \<and> pg_text_ok p (in_architecture i) \<and>
     pg_text_ok p (in_agent_version i) \<and> (\<forall>s \<in> set (in_capabilities i). pg_text_ok p s)"

definition fresh_ids :: "pg \<Rightarrow> world \<Rightarrow> bool" where
  "fresh_ids p w \<longleftrightarrow>
     pg_new_uuid p (w_uuids w) \<notin> dom (tb_machines (w_db w)) \<and>
     (\<forall>j \<in> set (tb_identities (w_db w)). i_machine_id j \<noteq> pg_new_uuid p (w_uuids w) \<and>
        i_id j \<noteq> pg_new_uuid p (w_uuids w + 1) \<and> i_agent_id j \<noteq> pg_new_uuid p (w_uuids w + 2))"

lemma machine_check_normal:
  assumes "pg_lawful p" "acceptable_input i" "storable p (normal_input i)"
  shows "machine_check p (new_machine_row (stored_of (normal_input i) h) now)"
proof -
  have "0 < pg_text_length p (trim_space s) \<and> Suc 0 \<le> pg_text_length p (trim_space s)
      \<and> pg_text_length p (trim_space s) \<le> 255"
    if "metadata_ok 255 s" "pg_text_ok p (trim_space s)" for s
    using that pg_lawfulD(5) [OF assms(1), of "trim_space s"] by (auto simp: metadata_ok_def)
  then show ?thesis
    using assms(2,3)
    by (simp add: machine_check_def new_machine_row_def stored_of_def normal_input_def
        acceptable_input_def storable_def)
qed

lemma pg_enroll_works:
  assumes "pg_lawful p" "\<not> ctx_done c" "w_faults w = []" "fresh_ids p w"
    and "acceptable_input i" "storable p (normal_input i)"
  shows "\<exists>w'. pg_enroll p c (stored_of (normal_input i) h) w =
      (Inr (pg_uuid_out p (pg_new_uuid p (w_uuids w)),
        pg_uuid_out p (pg_new_uuid p (w_uuids w + 2))), w') \<and>
    added_enrollment p (stored_of (normal_input i) h)
      (pg_new_uuid p (w_uuids w)) (pg_new_uuid p (w_uuids w + 2)) (w_db w) (w_db w') \<and>
    w_faults w' = [] \<and> w_clock w' = Suc (w_clock w)"
proof -
  define se where "se = stored_of (normal_input i) h"
  have texts: "pg_text_ok p (se_hostname se)" "pg_text_ok p (se_operating_system se)"
    "pg_text_ok p (se_os_version se)" "pg_text_ok p (se_architecture se)"
    "pg_text_ok p (se_agent_version se)" "pg_json_ok p (se_capabilities se)"
    using assms(1,6) pg_lawfulD(6) [OF assms(1), of "se_capabilities se"]
    by (simp_all add: se_def stored_of_def storable_def)
  have check: "machine_check p (new_machine_row se now)" for now
    unfolding se_def by (rule machine_check_normal [OF assms(1,5,6)])
  have "\<exists>w'. pg_enroll p c se w = (Inr (pg_uuid_out p (pg_new_uuid p (w_uuids w)),
      pg_uuid_out p (pg_new_uuid p (w_uuids w + 2))), w') \<and> w_faults w' = [] \<and>
      w_clock w' = Suc (w_clock w)"
    using assms(2-4) texts check
    by (simp add: pg_enroll_def insert_machine_def insert_identity_def draw_uuid_def commit_tx_def
        identity_check_def new_identity_row_def fresh_ids_def Let_def)
  then obtain w' where run: "pg_enroll p c se w =
      (Inr (pg_uuid_out p (pg_new_uuid p (w_uuids w)),
        pg_uuid_out p (pg_new_uuid p (w_uuids w + 2))), w')" "w_faults w' = []"
      "w_clock w' = Suc (w_clock w)"
    by blast
  then obtain mid aid where "added_enrollment p se mid aid (w_db w) (w_db w')"
    "pg_uuid_out p (pg_new_uuid p (w_uuids w)) = pg_uuid_out p mid"
    "pg_uuid_out p (pg_new_uuid p (w_uuids w + 2)) = pg_uuid_out p aid"
    using pg_enroll_cases [OF run(1)] by auto
  then have "added_enrollment p se (pg_new_uuid p (w_uuids w)) (pg_new_uuid p (w_uuids w + 2))
      (w_db w) (w_db w')"
    by (metis pg_lawfulD(2) [OF assms(1)] option.inject)
  with run show ?thesis by (auto simp: se_def)
qed

section \<open>Properties\<close>

text \<open>C19: an enrollment is all or nothing. On success the tables gain exactly the machine and its
  one active identity, with the digest and metadata passed in, and the caller gets their ids; on
  an error the tables are unchanged, or (a commit whose acknowledgement was lost) have gained
  both rows. There is never a machine without its identity.\<close>

theorem pg_enroll_atomic:
  "case pg_enroll p c input w of
     (Inr (m, a), w') \<Rightarrow> \<exists>mid aid. added_enrollment p input mid aid (w_db w) (w_db w') \<and>
        m = pg_uuid_out p mid \<and> a = pg_uuid_out p aid
   | (Inl e, w') \<Rightarrow> w_db w' = w_db w \<or>
        (\<exists>mid aid. added_enrollment p input mid aid (w_db w) (w_db w'))"
proof (cases "pg_enroll p c input w")
  case (Pair r w')
  with pg_enroll_cases [OF Pair] show ?thesis by (cases r) auto
qed

text \<open>C20: on a working database with fresh identifiers, an acceptable request whose texts the
  database can store is enrolled: the caller gets the printed identifiers the database drew and the
  base64 form of the random bytes, and exactly that machine and that identity, with the SHA-256
  digest of the secret, are added. Validation and the table's checks agree on such a request.\<close>

theorem enroll_succeeds:
  assumes "pg_lawful p" "\<not> ctx_done c" "w_faults w = []" "fresh_ids p w"
    and "acceptable_input i" "storable p (normal_input i)" "length bs = 32"
  shows "\<exists>w'. enroll (pg_enrollment_store p) c i ((bs, e) # r, w) =
      (Inr \<lparr>ea_machine_id = pg_uuid_out p (pg_new_uuid p (w_uuids w)),
            ea_agent_id = pg_uuid_out p (pg_new_uuid p (w_uuids w + 2)),
            ea_secret = b64_encode bs\<rparr>, r, w') \<and>
    added_enrollment p (stored_of (normal_input i) (sha256 (string_bytes (b64_encode bs))))
      (pg_new_uuid p (w_uuids w)) (pg_new_uuid p (w_uuids w + 2)) (w_db w) (w_db w')"
  using pg_enroll_works [OF assms(1-6), of "sha256 (string_bytes (b64_encode bs))"]
  by (auto simp: enroll_def validate_input_ok [OF assms(5)] random_credential_bytes [OF assms(7)]
      Let_def)

text \<open>C28: validation lets through what the database refuses: a request with an acceptable hostname
  that the text type does not accept (a zero byte) passes every check of the service and then
  fails in the transaction with an error that is not \<open>ErrInvalidInput\<close>.\<close>

theorem unstorable_hostname_is_not_invalid_input:
  assumes "\<not> ctx_done c" "w_faults w = []" "acceptable_input i"
    and "\<not> pg_text_ok p (trim_space (in_hostname i))" "length bs = 32"
  shows "\<exists>e' w'. enroll (pg_enrollment_store p) c i ((bs, e) # r, w) = (Inl e', r, w') \<and>
    \<not> errors_is e' ErrInvalidInput \<and> w_db w' = w_db w"
  using assms
  by (simp add: enroll_def validate_input_ok random_credential_bytes Let_def pg_enroll_def
      insert_machine_def draw_uuid_def stored_of_def normal_input_def bad_parameter_def)
text \<open>No outcome of an enrollment, failures and lost acknowledgements included, takes away or
  changes an active identity that was there: the agents already enrolled keep their machine and
  their credential.\<close>

theorem enroll_keeps_identities:
  assumes "pg_lawful p" "enroll (pg_enrollment_store p) c i (r, w) = (res, r', w')"
    and "pg_identities w k = Some x"
  shows "pg_identities w' k = Some x"
  using assms by (rule pg_enrollment.enroll_preserves)

section \<open>Witnesses\<close>

lemma demo_fresh: "fresh_ids sample_pg demo_world"
  by (simp add: fresh_ids_def sample_pg_def demo_world_def demo_identity_def empty_tables_def
      empty_world_def)

lemma demo_storable: "storable sample_pg (normal_input demo_input)"
  unfolding demo_input_normal
  by (simp add: storable_def demo_input_def sample_pg_def char_of_def)

theorem enroll_succeeds_witness:
  "\<exists>w'. enroll (pg_enrollment_store sample_pg) background demo_input ([(replicate 32 7, None)], demo_world) =
      (Inr \<lparr>ea_machine_id = bits_text 3, ea_agent_id = bits_text 5,
            ea_secret = b64_encode (replicate 32 7)\<rparr>, [], w') \<and>
    added_enrollment sample_pg
      (stored_of demo_input (sha256 (string_bytes (b64_encode (replicate 32 7))))) 3 5
      (w_db demo_world) (w_db w')"
proof -
  have "pg_new_uuid sample_pg (w_uuids demo_world) = 3" "pg_new_uuid sample_pg (w_uuids demo_world + 2) = 5"
    by (simp_all add: sample_pg_def demo_world_def)
  with enroll_succeeds [OF sample_pg_lawful _ _ demo_fresh demo_input_acceptable demo_storable,
      of background "replicate 32 7" None "[]"]
  show ?thesis by (simp add: demo_input_normal)
qed

theorem unstorable_hostname_is_not_invalid_input_witness:
  "\<exists>e' w'. enroll (pg_enrollment_store sample_pg) background
      (demo_input\<lparr>in_hostname := [char_of (0::nat)]\<rparr>) ([(replicate 32 7, None)], demo_world) = (Inl e', [], w') \<and>
    \<not> errors_is e' ErrInvalidInput \<and> w_db w' = w_db demo_world"
proof -
  have nul: "trim_space [char_of (0::nat)] = [char_of (0::nat)]"
    by (rule trim_space_fixed) (auto simp: white_space_def char_code_def prefix_def suffix_def append_eq_Cons_conv)
  then have "acceptable_input (demo_input\<lparr>in_hostname := [char_of (0::nat)]\<rparr>)"
    by (simp add: acceptable_input_def demo_input_def metadata_ok_def)
  moreover have "\<not> pg_text_ok sample_pg (trim_space (in_hostname (demo_input\<lparr>in_hostname := [char_of (0::nat)]\<rparr>)))"
    by (simp add: nul sample_pg_def)
  ultimately show ?thesis
    using unstorable_hostname_is_not_invalid_input [of background demo_world
        "demo_input\<lparr>in_hostname := [char_of (0::nat)]\<rparr>" sample_pg "replicate 32 7" None "[]"]
    by simp
qed

theorem enroll_keeps_identities_witness:
  "pg_identities (snd (snd (enroll (pg_enrollment_store sample_pg) background demo_input
     ([(replicate 32 7, None)], demo_world)))) 2 = Some (1, sha256 (string_bytes ''secret''))"
proof -
  have "pg_identities demo_world 2 = Some (1, sha256 (string_bytes ''secret''))"
    by (simp add: pg_identities_def demo_credentials_def)
  moreover obtain res r' w' where "enroll (pg_enrollment_store sample_pg) background demo_input
      ([(replicate 32 7, None)], demo_world) = (res, r', w')"
    by (metis prod.exhaust)
  ultimately show ?thesis
    using enroll_keeps_identities [OF sample_pg_lawful] by (metis snd_conv)
qed

end
