(* ===== verification/Presence_Store.thy ===== *)
theory Presence_Store
  imports Sample_Platform
begin

text \<open>
  \<^verbatim>\<open>server/internal/repository/postgres/presence_store.go\<close>: the identity lookup and the three
  session statements, with the presence events written in the same transaction. The store is
  shown to satisfy \<open>presence_contract\<close> of theory Presence.
\<close>

section \<open>FindActiveIdentity\<close>

definition pg_find_active_identity ::
  "pg \<Rightarrow> ctx \<Rightarrow> string \<Rightarrow> world \<Rightarrow> (go_error + identity option) \<times> world" where
  "pg_find_active_identity p c agent_id w =
     (case tx_round_trip c w of
        (Some e, w) \<Rightarrow> (Inl (wrap_error ''query active agent identity: '' e), w)
      | (None, w) \<Rightarrow>
     (case pg_uuid_in p agent_id of
        None \<Rightarrow> (Inl (wrap_error ''query active agent identity: '' bad_parameter), w)
      | Some aid \<Rightarrow>
     (case find (\<lambda>i. i_agent_id i = aid \<and> i_revoked_at i = None) (tb_identities (w_db w)) of
        None \<Rightarrow> (Inr None, w)
      | Some i \<Rightarrow> (Inr (Some \<lparr>id_machine_id = pg_uuid_out p (i_machine_id i),
                              id_agent_id = pg_uuid_out p (i_agent_id i),
                              id_credential_hash = i_credential_hash i\<rparr>), w))))"

section \<open>Statements of the session transactions\<close>

definition online_row :: "int \<Rightarrow> int \<Rightarrow> int \<Rightarrow> machine_row \<Rightarrow> machine_row" where
  "online_row connected seen updated row =
     row\<lparr>m_status := Online, m_last_connected_at := Some connected, m_last_seen_at := Some seen,
         m_updated_at := updated\<rparr>"

definition offline_row :: "int \<Rightarrow> int \<Rightarrow> machine_row \<Rightarrow> machine_row" where
  "offline_row disconnected updated row =
     row\<lparr>m_status := Offline, m_last_disconnected_at := Some disconnected,
         m_updated_at := updated\<rparr>"

definition set_machine :: "uuid \<Rightarrow> machine_row \<Rightarrow> tables \<Rightarrow> tables" where
  "set_machine m row tb = tb\<lparr>tb_machines := (tb_machines tb)(m \<mapsto> row)\<rparr>"

definition add_event :: "event_row \<Rightarrow> tables \<Rightarrow> tables" where
  "add_event ev tb = tb\<lparr>tb_events := tb_events tb @ [ev]\<rparr>"

text \<open>\<open>UPDATE machines SET status = 'online' ... RETURNING\<close>, with the status before it.\<close>

definition mark_online ::
  "pg \<Rightarrow> ctx \<Rightarrow> string \<Rightarrow> tx \<Rightarrow> world
     \<Rightarrow> (go_error + ((int \<times> machine_status) \<times> tx) option) \<times> world" where
  "mark_online p c machine_id tx w =
     (case tx_round_trip c w of
        (Some e, w) \<Rightarrow> (Inl e, w)
      | (None, w) \<Rightarrow>
     (case pg_uuid_in p machine_id of
        None \<Rightarrow> (Inl bad_parameter, w)
      | Some m \<Rightarrow>
     (case tb_machines (tx_tables tx) m of
        None \<Rightarrow> (Inr None, w)
      | Some row \<Rightarrow>
     (case read_clock p w of
        (connected, w) \<Rightarrow>
     (case read_clock p w of
        (seen, w) \<Rightarrow>
     (case read_clock p w of
        (updated, w) \<Rightarrow>
          (Inr (Some ((connected, m_status row),
                      tx\<lparr>tx_tables := set_machine m (online_row connected seen updated row)
                                         (tx_tables tx)\<rparr>)), w)))))))"

text \<open>\<open>UPDATE machines SET status = 'offline' ... WHERE id = $1 AND last_connected_at = $2 AND
  status = 'online' RETURNING id\<close>.\<close>

definition mark_offline ::
  "pg \<Rightarrow> ctx \<Rightarrow> session \<Rightarrow> tx \<Rightarrow> world \<Rightarrow> (go_error + (uuid \<times> tx) option) \<times> world" where
  "mark_offline p c session tx w =
     (case tx_round_trip c w of
        (Some e, w) \<Rightarrow> (Inl e, w)
      | (None, w) \<Rightarrow>
     (case pg_uuid_in p (sess_machine_id session) of
        None \<Rightarrow> (Inl bad_parameter, w)
      | Some m \<Rightarrow>
     (case tb_machines (tx_tables tx) m of
        None \<Rightarrow> (Inr None, w)
      | Some row \<Rightarrow>
          if m_last_connected_at row = Some (pg_time_in p (sess_connected_at session))
             \<and> m_status row = Online
          then (case read_clock p w of
                  (disconnected, w) \<Rightarrow>
               (case read_clock p w of
                  (updated, w) \<Rightarrow>
                    (Inr (Some (m, tx\<lparr>tx_tables := set_machine m
                                  (offline_row disconnected updated row) (tx_tables tx)\<rparr>)), w)))
          else (Inr None, w))))"

text \<open>\<open>INSERT INTO machine_presence_events (machine_id, status)\<close>: \<open>occurred_at\<close> defaults to
  \<open>now()\<close>, the start of the transaction, and the id comes from a sequence.\<close>

definition insert_event ::
  "pg \<Rightarrow> ctx \<Rightarrow> uuid \<Rightarrow> machine_status \<Rightarrow> tx \<Rightarrow> world \<Rightarrow> (go_error + tx) \<times> world" where
  "insert_event p c m status tx w =
     (case tx_round_trip c w of
        (Some e, w) \<Rightarrow> (Inl e, w)
      | (None, w) \<Rightarrow>
          let row = \<lparr>e_id = w_event_seq w, e_machine_id = m, e_status = status,
                     e_occurred_at = tx_now tx\<rparr>;
              w = w\<lparr>w_event_seq := Suc (w_event_seq w)\<rparr>
          in if m \<notin> dom (tb_machines (tx_tables tx)) then (Inl constraint_failure, w)
             else (Inr (tx\<lparr>tx_tables := add_event row (tx_tables tx)\<rparr>), w))"

section \<open>StartSession, TouchSession, EndSession\<close>

definition record_online ::
  "pg \<Rightarrow> ctx \<Rightarrow> string \<Rightarrow> machine_status \<Rightarrow> tx \<Rightarrow> world \<Rightarrow> (go_error + tx) \<times> world" where
  \<comment> \<open>the event of a machine that was not online before\<close>
  "record_online p c machine_id previous tx w =
     (if previous \<noteq> Online
      then (case pg_uuid_in p machine_id of
              None \<Rightarrow> (Inl bad_parameter, w)
            | Some m \<Rightarrow> insert_event p c m Online tx w)
      else (Inr tx, w))"

definition pg_start_session ::
  "pg \<Rightarrow> ctx \<Rightarrow> string \<Rightarrow> world \<Rightarrow> (go_error + go_time) \<times> world" where
  "pg_start_session p c machine_id w =
     (case begin_tx p c w of
        (Inl e, w) \<Rightarrow> (Inl (wrap_error ''begin presence session transaction: '' e), w)
      | (Inr tx, w) \<Rightarrow>
     (case mark_online p c machine_id tx w of
        (Inl e, w) \<Rightarrow> (Inl (wrap_error ''mark machine online: '' e), w)
      | (Inr None, w) \<Rightarrow> (Inl (New ''start presence session: machine not found''), w)
      | (Inr (Some ((connected, previous), tx)), w) \<Rightarrow>
     (case record_online p c machine_id previous tx w of
        (Inl e, w) \<Rightarrow> (Inl (wrap_error ''record machine online event: '' e), w)
      | (Inr tx, w) \<Rightarrow>
     (case commit_tx c tx w of
        (Some e, w) \<Rightarrow> (Inl (wrap_error ''commit presence session transaction: '' e), w)
      | (None, w) \<Rightarrow> (Inr (pg_time_out p connected), w)))))"

definition touch_tables :: "uuid \<Rightarrow> int \<Rightarrow> int \<Rightarrow> int \<Rightarrow> tables \<Rightarrow> tables" where
  "touch_tables m connected seen updated tb =
     (case tb_machines tb m of
        None \<Rightarrow> tb
      | Some row \<Rightarrow>
          if m_last_connected_at row = Some connected
          then set_machine m (row\<lparr>m_last_seen_at := Some seen, m_updated_at := updated\<rparr>) tb
          else tb)"

definition pg_touch_session ::
  "pg \<Rightarrow> ctx \<Rightarrow> session \<Rightarrow> world \<Rightarrow> go_error option \<times> world" where
  "pg_touch_session p c session w =
     (case pg_uuid_in p (sess_machine_id session) of
        None \<Rightarrow> (case tx_round_trip c w of
                   (Some e, w) \<Rightarrow> (Some (wrap_error ''update machine heartbeat: '' e), w)
                 | (None, w) \<Rightarrow> (Some (wrap_error ''update machine heartbeat: '' bad_parameter), w))
      | Some m \<Rightarrow>
     (case read_clock p w of
        (seen, w) \<Rightarrow>
     (case read_clock p w of
        (updated, w) \<Rightarrow>
     (case install c (touch_tables m (pg_time_in p (sess_connected_at session)) seen updated
                        (w_db w)) w of
        (Some e, w) \<Rightarrow> (Some (wrap_error ''update machine heartbeat: '' e), w)
      | (None, w) \<Rightarrow> (None, w)))))"

definition pg_end_session ::
  "pg \<Rightarrow> ctx \<Rightarrow> session \<Rightarrow> world \<Rightarrow> go_error option \<times> world" where
  "pg_end_session p c session w =
     (case begin_tx p c w of
        (Inl e, w) \<Rightarrow> (Some (wrap_error ''begin end presence session transaction: '' e), w)
      | (Inr tx, w) \<Rightarrow>
     (case mark_offline p c session tx w of
        (Inl e, w) \<Rightarrow> (Some (wrap_error ''mark machine offline: '' e), w)
      | (Inr None, w) \<Rightarrow>
          (case commit_tx c tx w of
             (Some e, w) \<Rightarrow> (Some (wrap_error ''commit unchanged presence session: '' e), w)
           | (None, w) \<Rightarrow> (None, w))
      | (Inr (Some (m, tx)), w) \<Rightarrow>
     (case insert_event p c m Offline tx w of
        (Inl e, w) \<Rightarrow> (Some (wrap_error ''record machine offline event: '' e), w)
      | (Inr tx, w) \<Rightarrow>
     (case commit_tx c tx w of
        (Some e, w) \<Rightarrow> (Some (wrap_error ''commit end presence session transaction: '' e), w)
      | (None, w) \<Rightarrow> (None, w)))))"

definition pg_presence_store :: "pg \<Rightarrow> world presence_store" where
  "pg_presence_store p =
     \<lparr>find_active_identity = pg_find_active_identity p, start_session = pg_start_session p,
      touch_session = pg_touch_session p, end_session = pg_end_session p\<rparr>"

lemma pg_presence_store_simps [simp]:
  "find_active_identity (pg_presence_store p) = pg_find_active_identity p"
  "start_session (pg_presence_store p) = pg_start_session p"
  "touch_session (pg_presence_store p) = pg_touch_session p"
  "end_session (pg_presence_store p) = pg_end_session p"
  by (simp_all add: pg_presence_store_def)

section \<open>What the statements do\<close>

text \<open>\<open>later w w'\<close>: the clock, the UUID source and the event sequence only move forward.\<close>

definition later :: "world \<Rightarrow> world \<Rightarrow> bool" where
  "later w w' \<longleftrightarrow> w_clock w \<le> w_clock w' \<and> w_uuids w \<le> w_uuids w'
     \<and> w_event_seq w \<le> w_event_seq w'"

lemma later_refl [simp, intro]: "later w w"
  by (simp add: later_def)

lemma later_trans [trans]: "later w w' \<Longrightarrow> later w' w'' \<Longrightarrow> later w w''"
  by (auto simp: later_def)

lemma mark_online_cases:
  assumes "mark_online p c mid tx w = (r, w')"
  shows "w_db w' = w_db w \<and> w_event_seq w' = w_event_seq w \<and> later w w' \<and>
    (case r of
       Inr (Some ((t, prev), tx')) \<Rightarrow>
         (\<exists>m row. pg_uuid_in p mid = Some m \<and> tb_machines (tx_tables tx) m = Some row \<and>
            prev = m_status row \<and> t = pg_clock p (w_clock w) \<and> w_clock w < w_clock w' \<and>
            (\<exists>seen updated. tx' = tx\<lparr>tx_tables :=
               set_machine m (online_row t seen updated row) (tx_tables tx)\<rparr>))
     | _ \<Rightarrow> True)"
  using assms
  by (auto simp: mark_online_def read_clock_def later_def
      split: prod.splits option.splits dest!: tx_round_trip_frame) blast

lemma mark_offline_cases:
  assumes "mark_offline p c sess tx w = (r, w')"
  shows "w_db w' = w_db w \<and> w_event_seq w' = w_event_seq w \<and> later w w' \<and>
    (case r of
       Inl _ \<Rightarrow> True
     | Inr None \<Rightarrow> (\<exists>m. pg_uuid_in p (sess_machine_id sess) = Some m \<and>
         (\<forall>row. tb_machines (tx_tables tx) m = Some row \<longrightarrow>
            \<not> (m_last_connected_at row = Some (pg_time_in p (sess_connected_at sess))
               \<and> m_status row = Online)))
     | Inr (Some (m, tx')) \<Rightarrow> pg_uuid_in p (sess_machine_id sess) = Some m \<and>
         (\<exists>row disconnected updated. tb_machines (tx_tables tx) m = Some row \<and>
            m_last_connected_at row = Some (pg_time_in p (sess_connected_at sess)) \<and>
            m_status row = Online \<and>
            tx' = tx\<lparr>tx_tables :=
               set_machine m (offline_row disconnected updated row) (tx_tables tx)\<rparr>))"
  using assms
  by (auto simp: mark_offline_def read_clock_def later_def
      split: prod.splits option.splits if_splits dest!: tx_round_trip_frame) blast

lemma insert_event_cases:
  assumes "insert_event p c m st tx w = (r, w')"
  shows "w_db w' = w_db w \<and> w_clock w' = w_clock w \<and> w_uuids w' = w_uuids w \<and>
    w_event_seq w \<le> w_event_seq w' \<and>
    (\<forall>tx'. r = Inr tx' \<longrightarrow> m \<in> dom (tb_machines (tx_tables tx)) \<and>
       w_event_seq w' = Suc (w_event_seq w) \<and>
       tx' = tx\<lparr>tx_tables := add_event \<lparr>e_id = w_event_seq w, e_machine_id = m, e_status = st,
                                      e_occurred_at = tx_now tx\<rparr> (tx_tables tx)\<rparr>)"
  using assms
  by (auto simp: insert_event_def Let_def split: prod.splits option.splits if_splits
      dest!: tx_round_trip_frame)

text \<open>The tables a session start and a session end leave behind.\<close>

text \<open>The parts of the database the statements on machines and events leave alone.\<close>

lemma table_frames [frame]:
  "tb_identities (set_machine m row tb) = tb_identities tb"
  "tb_samples (set_machine m row tb) = tb_samples tb"
  "tb_events (set_machine m row tb) = tb_events tb"
  "tb_identities (add_event e tb) = tb_identities tb"
  "tb_samples (add_event e tb) = tb_samples tb"
  "tb_machines (add_event e tb) = tb_machines tb"
  by (simp_all add: set_machine_def add_event_def)

lemma touch_tables_frames [frame]:
  "tb_identities (touch_tables m t seen updated tb) = tb_identities tb"
  "tb_samples (touch_tables m t seen updated tb) = tb_samples tb"
  "tb_events (touch_tables m t seen updated tb) = tb_events tb"
  by (simp_all add: touch_tables_def table_frames split: option.split)

definition session_started :: "uuid \<Rightarrow> int \<Rightarrow> nat \<Rightarrow> tables \<Rightarrow> tables \<Rightarrow> bool" where
  "session_started m t eid tb tb' \<longleftrightarrow>
     (\<exists>row seen updated now. tb_machines tb m = Some row \<and>
        tb' = (let tb1 = set_machine m (online_row t seen updated row) tb
               in if m_status row = Online then tb1
                  else add_event \<lparr>e_id = eid, e_machine_id = m, e_status = Online,
                                  e_occurred_at = now\<rparr> tb1))"

definition session_ended :: "uuid \<Rightarrow> int \<Rightarrow> nat \<Rightarrow> tables \<Rightarrow> tables \<Rightarrow> bool" where
  "session_ended m t eid tb tb' \<longleftrightarrow>
     (\<exists>row disconnected updated now. tb_machines tb m = Some row \<and>
        m_last_connected_at row = Some t \<and> m_status row = Online \<and>
        tb' = add_event \<lparr>e_id = eid, e_machine_id = m, e_status = Offline, e_occurred_at = now\<rparr>
                (set_machine m (offline_row disconnected updated row) tb))"

lemma session_frames:
  "session_started m t eid tb tb' \<Longrightarrow> tb_identities tb' = tb_identities tb"
  "session_started m t eid tb tb' \<Longrightarrow> tb_samples tb' = tb_samples tb"
  "session_ended m t eid tb tb' \<Longrightarrow> tb_identities tb' = tb_identities tb"
  "session_ended m t eid tb tb' \<Longrightarrow> tb_samples tb' = tb_samples tb"
  by (auto simp: session_started_def session_ended_def table_frames Let_def)

definition session_matches :: "uuid \<Rightarrow> int \<Rightarrow> tables \<Rightarrow> bool" where
  "session_matches m t tb \<longleftrightarrow>
     (\<exists>row. tb_machines tb m = Some row \<and> m_last_connected_at row = Some t \<and> m_status row = Online)"

lemma pg_find_frame:
  "pg_find_active_identity p c a w = (r, w') \<Longrightarrow>
     w_db w' = w_db w \<and> w_clock w' = w_clock w \<and> w_uuids w' = w_uuids w
     \<and> w_event_seq w' = w_event_seq w"
  by (auto simp: pg_find_active_identity_def split: prod.splits option.splits
      dest!: tx_round_trip_frame)

lemma pg_find_result:
  "pg_find_active_identity p c a w = (Inr r, w') \<Longrightarrow>
     \<exists>aid. pg_uuid_in p a = Some aid \<and>
       r = map_option (\<lambda>i. \<lparr>id_machine_id = pg_uuid_out p (i_machine_id i),
                            id_agent_id = pg_uuid_out p (i_agent_id i),
                            id_credential_hash = i_credential_hash i\<rparr>)
             (find (\<lambda>i. i_agent_id i = aid \<and> i_revoked_at i = None) (tb_identities (w_db w)))"
  by (auto simp: pg_find_active_identity_def split: prod.splits option.splits
      dest!: tx_round_trip_frame)

text \<open>Both statements of a session start, up to the commit.\<close>

lemma start_statements:
  assumes "mark_online p c mid tx w = (Inr (Some ((t, prev), tx1)), w1)"
    and "record_online p c mid prev tx1 w1 = (r, w2)"
  shows "w_db w2 = w_db w \<and> later w w2 \<and> t = pg_clock p (w_clock w) \<and> w_clock w < w_clock w2 \<and>
    (\<forall>tx2. r = Inr tx2 \<longrightarrow>
       (\<exists>m. pg_uuid_in p mid = Some m \<and>
          session_started m t (w_event_seq w) (tx_tables tx) (tx_tables tx2) \<and>
          (tb_events (tx_tables tx2) = tb_events (tx_tables tx) \<or> w_event_seq w < w_event_seq w2)))"
proof -
  from mark_online_cases [OF assms(1)] obtain m row seen updated where m:
    "pg_uuid_in p mid = Some m" "tb_machines (tx_tables tx) m = Some row" "prev = m_status row"
    "tx1 = tx\<lparr>tx_tables := set_machine m (online_row t seen updated row) (tx_tables tx)\<rparr>"
    "w_db w1 = w_db w" "w_event_seq w1 = w_event_seq w" "later w w1"
    "t = pg_clock p (w_clock w)" "w_clock w < w_clock w1"
    by auto
  show ?thesis
  proof (cases "prev = Online")
    case True
    with assms(2) have "r = Inr tx1" "w2 = w1" by (simp_all add: record_online_def)
    with True m show ?thesis
      by (auto simp: session_started_def set_machine_def)
  next
    case False
    with assms(2) m(1) have e: "insert_event p c m Online tx1 w1 = (r, w2)"
      by (simp add: record_online_def)
    note fe = insert_event_cases [OF e]
    have "session_started m t (w_event_seq w) (tx_tables tx) (tx_tables tx2)" if "r = Inr tx2" for tx2
      using fe that m False unfolding session_started_def
      by (intro exI [of _ row] exI [of _ seen] exI [of _ updated] exI [of _ "tx_now tx1"]) simp
    with fe m show ?thesis by (auto simp: later_def)
  qed
qed

lemma pg_start_cases:
  assumes "pg_start_session p c mid w = (r, w')"
  shows "later w w' \<and>
    (w_db w' = w_db w \<and> (\<exists>e. r = Inl e) \<or>
     (\<exists>m. pg_uuid_in p mid = Some m \<and> Suc (w_clock w) < w_clock w' \<and>
        session_started m (pg_clock p (Suc (w_clock w))) (w_event_seq w) (w_db w) (w_db w') \<and>
        (tb_events (w_db w') = tb_events (w_db w) \<or> w_event_seq w < w_event_seq w') \<and>
        ((\<exists>e. r = Inl e) \<or> r = Inr (pg_time_out p (pg_clock p (Suc (w_clock w)))))))"
proof -
  obtain rb wb where b: "begin_tx p c w = (rb, wb)" by force
  note fb = begin_tx_frame [OF b]
  show ?thesis
  proof (cases rb)
    case (Inl e)
    with assms b fb show ?thesis by (auto simp: pg_start_session_def later_def)
  next
    case (Inr tx)
    obtain ro wo where o: "mark_online p c mid tx wb = (ro, wo)" by force
    show ?thesis
    proof (cases "\<exists>x. ro = Inr (Some x)")
      case False
      with assms b o Inr fb mark_online_cases [OF o] show ?thesis
        by (auto simp: pg_start_session_def later_def split: sum.splits option.splits)
    next
      case True
      then obtain t prev tx1 where ro: "ro = Inr (Some ((t, prev), tx1))" by auto
      obtain ri wi where i: "record_online p c mid prev tx1 wo = (ri, wi)" by force
      note st = start_statements [OF o [unfolded ro] i]
      have eq: "pg_start_session p c mid w =
          (case ri of
             Inl e \<Rightarrow> (Inl (wrap_error ''record machine online event: '' e), wi)
           | Inr tx \<Rightarrow> (case commit_tx c tx wi of
               (Some e, w) \<Rightarrow> (Inl (wrap_error ''commit presence session transaction: '' e), w)
             | (None, w) \<Rightarrow> (Inr (pg_time_out p t), w)))"
        by (simp add: pg_start_session_def b Inr o ro i split: sum.split)
      show ?thesis
      proof (cases ri)
        case (Inl e)
        with assms eq st fb show ?thesis by (auto simp: later_def)
      next
        case Ri: (Inr tx2)
        obtain rc wc where k: "install c (tx_tables tx2) wi = (rc, wc)" by force
        have "r = (case rc of Some e \<Rightarrow>
            Inl (wrap_error ''commit presence session transaction: '' e)
          | None \<Rightarrow> Inr (pg_time_out p t))" "w' = wc"
          using assms eq Ri k by (auto simp: commit_tx_def split: option.splits)
        with install_cases [OF k] st Ri fb Inr show ?thesis
          by (cases rc) (auto simp: later_def)
      qed
    qed
  qed
qed

lemma pg_touch_cases:
  assumes "pg_touch_session p c sess w = (r, w')"
  shows "later w w' \<and> w_event_seq w' = w_event_seq w \<and>
    (w_db w' = w_db w \<and> r \<noteq> None \<or>
     (\<exists>m seen updated. pg_uuid_in p (sess_machine_id sess) = Some m \<and>
        w_db w' = touch_tables m (pg_time_in p (sess_connected_at sess)) seen updated (w_db w)))"
proof (cases "pg_uuid_in p (sess_machine_id sess)")
  case None
  with assms show ?thesis
    by (auto simp: pg_touch_session_def later_def split: prod.splits option.splits
        dest!: tx_round_trip_frame)
next
  case (Some m)
  define w2 where "w2 = w\<lparr>w_clock := Suc (Suc (w_clock w))\<rparr>"
  define tb where "tb = touch_tables m (pg_time_in p (sess_connected_at sess))
      (pg_clock p (w_clock w)) (pg_clock p (Suc (w_clock w))) (w_db w)"
  obtain ri wi where i: "install c tb w2 = (ri, wi)" by force
  with assms Some have "w' = wi" "r = None \<longleftrightarrow> ri = None"
    by (auto simp: pg_touch_session_def read_clock_def tb_def w2_def split: option.splits)
  with install_cases [OF i] Some show ?thesis
    by (auto simp: later_def tb_def w2_def)
qed

lemma pg_end_cases:
  assumes "pg_end_session p c sess w = (r, w')"
  shows "later w w' \<and>
    (w_db w' = w_db w \<and> r \<noteq> None \<or>
     (\<exists>m. pg_uuid_in p (sess_machine_id sess) = Some m \<and>
        (if session_matches m (pg_time_in p (sess_connected_at sess)) (w_db w)
         then session_ended m (pg_time_in p (sess_connected_at sess)) (w_event_seq w)
                (w_db w) (w_db w') \<and> w_event_seq w < w_event_seq w'
         else w_db w' = w_db w)))"
proof -
  obtain rb wb where b: "begin_tx p c w = (rb, wb)" by force
  note fb = begin_tx_frame [OF b]
  show ?thesis
  proof (cases rb)
    case (Inl e)
    with assms b fb show ?thesis by (auto simp: pg_end_session_def later_def)
  next
    case (Inr tx)
    obtain ro wo where o: "mark_offline p c sess tx wb = (ro, wo)" by force
    note fo = mark_offline_cases [OF o]
    consider (err) e where "ro = Inl e" | (none) "ro = Inr None"
      | (row) m tx1 where "ro = Inr (Some (m, tx1))"
      by (metis option.exhaust old.sum.exhaust surj_pair)
    then show ?thesis
    proof cases
      case err
      with assms b o Inr fb fo show ?thesis by (auto simp: pg_end_session_def later_def)
    next
      case none
      obtain rc wc where k: "install c (tx_tables tx) wo = (rc, wc)" by force
      with assms b o Inr none have "w' = wc" "r = None \<longleftrightarrow> rc = None"
        by (auto simp: pg_end_session_def commit_tx_def split: option.splits)
      moreover from fo none fb Inr obtain m where "pg_uuid_in p (sess_machine_id sess) = Some m"
        "\<not> session_matches m (pg_time_in p (sess_connected_at sess)) (w_db w)"
        by (auto simp: session_matches_def)
      ultimately show ?thesis
        using install_cases [OF k] fb fo Inr by (auto simp: later_def)
    next
      case row
      obtain ri wi where i: "insert_event p c m Offline tx1 wo = (ri, wi)" by force
      note fi = insert_event_cases [OF i]
      have tbs: "tx_tables tx = w_db w" using fb Inr by simp
      have fo': "pg_uuid_in p (sess_machine_id sess) = Some m"
        "\<exists>row disconnected updated. tb_machines (w_db w) m = Some row \<and>
            m_last_connected_at row = Some (pg_time_in p (sess_connected_at sess)) \<and>
            m_status row = Online \<and>
            tx1 = tx\<lparr>tx_tables := set_machine m (offline_row disconnected updated row) (w_db w)\<rparr>"
        using fo unfolding row tbs by simp_all
      then have m: "session_matches m (pg_time_in p (sess_connected_at sess)) (w_db w)"
        by (auto simp only: session_matches_def)
      show ?thesis
      proof (cases ri)
        case Ri: (Inl e)
        with assms b o i Inr row fb fo fi show ?thesis
          by (auto simp: pg_end_session_def later_def)
      next
        case Ri: (Inr tx2)
        obtain rc wc where k: "install c (tx_tables tx2) wi = (rc, wc)" by force
        with assms b o i Ri Inr row have "w' = wc" "r = None \<longleftrightarrow> rc = None"
          by (auto simp: pg_end_session_def commit_tx_def split: option.splits)
        moreover have "session_ended m (pg_time_in p (sess_connected_at sess)) (w_event_seq w)
            (w_db w) (tx_tables tx2)"
        proof -
          from fi Ri have "tx2 = tx1\<lparr>tx_tables := add_event \<lparr>e_id = w_event_seq wo,
              e_machine_id = m, e_status = Offline, e_occurred_at = tx_now tx1\<rparr> (tx_tables tx1)\<rparr>"
            by simp
          moreover have "w_event_seq wo = w_event_seq w" using fo fb by simp
          ultimately show ?thesis
            using fo'(2) by (fastforce simp: session_ended_def)
        qed
        moreover have "later w wi" "w_db wi = w_db w" "w_event_seq w < w_event_seq wi"
          using fb fo fi Ri by (simp_all add: later_def)
        ultimately show ?thesis
          using install_cases [OF k] m fo'(1) by (simp add: later_def) metis
      qed
    qed
  qed
qed

section \<open>The store satisfies its contract\<close>

definition pg_view :: "world \<Rightarrow> uuid view" where
  "pg_view w = (\<lambda>m. map_option (\<lambda>row. (m_status row = Online, m_last_connected_at row))
     (tb_machines (w_db w) m))"

text \<open>The state of the world the contract needs: the documented laws, and a clock that has passed
  every stamp in the tables.\<close>

definition stamps_past :: "pg \<Rightarrow> world \<Rightarrow> bool" where
  "stamps_past p w \<longleftrightarrow> (\<forall>m row t. tb_machines (w_db w) m = Some row \<longrightarrow>
     m_last_connected_at row = Some t \<longrightarrow> t < pg_clock p (w_clock w))"

definition pg_ok :: "pg \<Rightarrow> world \<Rightarrow> bool" where
  "pg_ok p w \<longleftrightarrow> pg_lawful p \<and> stamps_past p w"

lemma clock_mono: "pg_lawful p \<Longrightarrow> i \<le> j \<Longrightarrow> pg_clock p i \<le> pg_clock p j"
  by (rule monoD [OF strict_mono_mono [OF pg_lawfulD(1)]])

lemma clock_less: "pg_lawful p \<Longrightarrow> i < j \<Longrightarrow> pg_clock p i < pg_clock p j"
  by (rule strict_monoD [OF pg_lawfulD(1)])

lemma pg_view_started:
  "session_started m t eid (w_db w) (w_db w') \<Longrightarrow>
     m \<in> dom (pg_view w) \<and> pg_view w' = started m t (pg_view w)"
  by (auto simp: session_started_def pg_view_def started_def set_machine_def add_event_def
      online_row_def Let_def fun_eq_iff)

lemma pg_view_matches:
  "session_matches m t (w_db w) \<longleftrightarrow> pg_view w m = Some (True, Some t)"
  by (auto simp: session_matches_def pg_view_def)

lemma pg_view_ended:
  "session_ended m t eid (w_db w) (w_db w') \<Longrightarrow> pg_view w' = ended m t (pg_view w)"
  by (auto simp: session_ended_def pg_view_def ended_def set_machine_def add_event_def
      offline_row_def fun_eq_iff)

lemma pg_view_touch:
  "w_db w' = touch_tables m t seen updated (w_db w) \<Longrightarrow> pg_view w' = pg_view w"
  by (auto simp: touch_tables_def pg_view_def set_machine_def fun_eq_iff split: option.split)

lemma stamps_past_fresh:
  assumes "pg_ok p w" "w_clock w \<le> k"
  shows "fresh_stamp (pg_clock p k) (pg_view w)"
proof -
  have "pg_clock p (w_clock w) \<le> pg_clock p k"
    using assms by (intro clock_mono) (simp_all add: pg_ok_def)
  then show ?thesis
    using assms(1) by (fastforce simp: fresh_stamp_def pg_view_def pg_ok_def stamps_past_def)
qed

lemma stamps_past_view:
  "stamps_past p w \<longleftrightarrow>
     (\<forall>m b t. pg_view w m = Some (b, Some t) \<longrightarrow> t < pg_clock p (w_clock w))"
  by (auto simp: stamps_past_def pg_view_def)

lemma pg_ok_later:
  assumes "pg_ok p w" "later w w'"
    and "pg_view w' = pg_view w \<or> (\<exists>m t. pg_view w' = ended m t (pg_view w)) \<or>
      (\<exists>m k. pg_view w' = started m (pg_clock p k) (pg_view w) \<and> k < w_clock w')"
  shows "pg_ok p w'"
proof -
  have law: "pg_lawful p" using assms(1) by (simp add: pg_ok_def)
  have mono: "pg_clock p (w_clock w) \<le> pg_clock p (w_clock w')"
    using assms(2) by (intro clock_mono [OF law]) (simp add: later_def)
  from assms(3) have "stamps_past p w'"
  proof (elim disjE exE conjE)
    fix m k assume "pg_view w' = started m (pg_clock p k) (pg_view w)" "k < w_clock w'"
    with assms(1) mono clock_less [OF law, of k "w_clock w'"] show ?thesis
      by (fastforce simp: stamps_past_view pg_ok_def started_def split: if_splits)
  qed (use assms(1) mono in
      \<open>fastforce simp: stamps_past_view pg_ok_def ended_def split: if_splits\<close>)+
  with law show ?thesis by (simp add: pg_ok_def)
qed

text \<open>The operations on the view.\<close>

lemma pg_view_db: "w_db w' = w_db w \<Longrightarrow> pg_view w' = pg_view w"
  by (simp add: pg_view_def)

lemma pg_start_view:
  assumes "pg_start_session p c m w = (r, w')"
  shows "pg_view w' = pg_view w \<and> (\<exists>e. r = Inl e) \<or>
    (\<exists>k. pg_uuid_in p m = Some k \<and> k \<in> dom (pg_view w) \<and> Suc (w_clock w) < w_clock w' \<and>
       pg_view w' = started k (pg_clock p (Suc (w_clock w))) (pg_view w) \<and>
       ((\<exists>e. r = Inl e) \<or> r = Inr (pg_time_out p (pg_clock p (Suc (w_clock w))))))"
  using pg_start_cases [OF assms] by (auto dest: pg_view_started pg_view_db)

lemma pg_end_view:
  assumes "pg_end_session p c sess w = (r, w')"
  shows "pg_view w' = pg_view w \<and> r \<noteq> None \<or>
    (\<exists>k. pg_uuid_in p (sess_machine_id sess) = Some k \<and>
       pg_view w' = ended k (pg_time_in p (sess_connected_at sess)) (pg_view w))"
proof -
  have "pg_view w' = ended k t (pg_view w)"
    if "w_db w' = w_db w" "\<not> session_matches k t (w_db w)" for k t
    using that pg_view_db [OF that(1)] by (simp add: ended_def pg_view_matches)
  then show ?thesis
    using pg_end_cases [OF assms]
    by (auto dest: pg_view_ended pg_view_db split: if_splits)
qed

interpretation pg_store: presence_contract "pg_presence_store p" pg_view "pg_uuid_in p"
  "pg_time_in p" "pg_ok p" for p
proof (unfold_locales, unfold pg_presence_store_simps)
  fix c a w r w'
  assume "pg_find_active_identity p c a w = (r, w')"
  note f = pg_find_frame [OF this]
  then show v: "pg_view w' = pg_view w" by (intro pg_view_db) simp
  show "pg_ok p w'" if "pg_ok p w"
    by (rule pg_ok_later [OF that]) (use f v in \<open>simp_all add: later_def\<close>)
next
  fix c m w t w'
  assume ok: "pg_ok p w" and st: "pg_start_session p c m w = (Inr t, w')"
  show "\<exists>k. pg_uuid_in p m = Some k \<and> k \<in> dom (pg_view w) \<and>
      fresh_stamp (pg_time_in p t) (pg_view w) \<and>
      pg_view w' = started k (pg_time_in p t) (pg_view w)"
    using pg_start_view [OF st] stamps_past_fresh [OF ok, of "Suc (w_clock w)"] ok
    by (auto simp: pg_ok_def pg_lawfulD)
next
  fix c m w e w'
  assume ok: "pg_ok p w" and st: "pg_start_session p c m w = (Inl e, w')"
  show "pg_view w' = pg_view w \<or> (\<exists>k t. pg_uuid_in p m = Some k \<and> k \<in> dom (pg_view w) \<and>
      fresh_stamp t (pg_view w) \<and> pg_view w' = started k t (pg_view w))"
    using pg_start_view [OF st] stamps_past_fresh [OF ok le_SucI [OF order_refl]] by blast
next
  fix c m w r w'
  assume ok: "pg_ok p w" and st: "pg_start_session p c m w = (r, w')"
  show "pg_ok p w'"
    by (rule pg_ok_later [OF ok]) (use pg_start_view [OF st] pg_start_cases [OF st] in blast)+
next
  fix c sess w r w'
  assume t: "pg_touch_session p c sess w = (r, w')"
  from pg_touch_cases [OF t] show v: "pg_view w' = pg_view w"
    by (auto dest: pg_view_touch pg_view_db)
  show "pg_ok p w'" if "pg_ok p w"
    by (rule pg_ok_later [OF that]) (use pg_touch_cases [OF t] v in simp_all)
next
  fix c sess w w'
  assume e: "pg_end_session p c sess w = (None, w')"
  show "\<exists>k. pg_uuid_in p (sess_machine_id sess) = Some k \<and>
      pg_view w' = ended k (pg_time_in p (sess_connected_at sess)) (pg_view w)"
    using pg_end_view [OF e] by blast
next
  fix c sess w e w'
  assume e: "pg_end_session p c sess w = (Some e, w')"
  show "pg_view w' = pg_view w \<or> (\<exists>k. pg_uuid_in p (sess_machine_id sess) = Some k \<and>
      pg_view w' = ended k (pg_time_in p (sess_connected_at sess)) (pg_view w))"
    using pg_end_view [OF e] by blast
next
  fix c sess w r w'
  assume ok: "pg_ok p w" and e: "pg_end_session p c sess w = (r, w')"
  show "pg_ok p w'"
    by (rule pg_ok_later [OF ok]) (use pg_end_view [OF e] pg_end_cases [OF e] in blast)+
qed

section \<open>On a working database\<close>

definition online_tables :: "uuid \<Rightarrow> machine_row \<Rightarrow> int \<Rightarrow> int \<Rightarrow> int \<Rightarrow> nat \<Rightarrow> int \<Rightarrow> tables \<Rightarrow> tables" where
  "online_tables m row t seen updated eid now tb =
     (let tb1 = set_machine m (online_row t seen updated row) tb
      in if m_status row = Online then tb1
         else add_event \<lparr>e_id = eid, e_machine_id = m, e_status = Online, e_occurred_at = now\<rparr> tb1)"

lemma pg_start_works:
  assumes "\<not> ctx_done c" "w_faults w = []" "pg_uuid_in p mid = Some m"
    and "tb_machines (w_db w) m = Some row"
  shows "pg_start_session p c mid w =
    (Inr (pg_time_out p (pg_clock p (Suc (w_clock w)))),
     w\<lparr>w_db := online_tables m row (pg_clock p (Suc (w_clock w))) (pg_clock p (w_clock w + 2))
                 (pg_clock p (w_clock w + 3)) (w_event_seq w) (pg_clock p (w_clock w)) (w_db w),
       w_clock := w_clock w + 4,
       w_event_seq := (if m_status row = Online then w_event_seq w else Suc (w_event_seq w))\<rparr>)"
  using assms
  by (simp add: pg_start_session_def mark_online_def read_clock_def record_online_def
      insert_event_def commit_tx_def online_tables_def Let_def set_machine_def domIff
      eval_nat_numeral)

lemma pg_find_works:
  assumes "\<not> ctx_done c" "w_faults w = []" "pg_uuid_in p aid = Some a"
    and "active_identity a (tb_identities (w_db w)) = Some i"
  shows "pg_find_active_identity p c aid w =
    (Inr (Some \<lparr>id_machine_id = pg_uuid_out p (i_machine_id i),
                id_agent_id = pg_uuid_out p (i_agent_id i),
                id_credential_hash = i_credential_hash i\<rparr>), w)"
  using assms by (simp add: pg_find_active_identity_def active_identity_def)

lemma open_session_works:
  assumes "pg_lawful p" "\<not> ctx_done c" "w_faults w = []" "presentable ext creds"
    and "pg_uuid_in p (cred_agent_id creds) = Some a"
    and "active_identity a (tb_identities (w_db w)) = Some i"
    and "i_credential_hash i = sha256 (string_bytes (cred_secret creds))"
    and "tb_machines (w_db w) (i_machine_id i) = Some row"
  shows "open_session ext (pg_presence_store p) c creds w =
    (Inr \<lparr>sess_machine_id = pg_uuid_out p (i_machine_id i),
          sess_agent_id = pg_uuid_out p (i_agent_id i),
          sess_connected_at = pg_time_out p (pg_clock p (Suc (w_clock w)))\<rparr>,
     w\<lparr>w_db := online_tables (i_machine_id i) row (pg_clock p (Suc (w_clock w)))
                 (pg_clock p (w_clock w + 2)) (pg_clock p (w_clock w + 3)) (w_event_seq w)
                 (pg_clock p (w_clock w)) (w_db w),
       w_clock := w_clock w + 4,
       w_event_seq := (if m_status row = Online then w_event_seq w else Suc (w_event_seq w))\<rparr>)"
proof -
  have "pg_uuid_in p (pg_uuid_out p (i_machine_id i)) = Some (i_machine_id i)"
    using assms(1) by (simp add: pg_lawfulD)
  with assms show ?thesis
    using open_session_accepts [OF assms(4), of "pg_presence_store p" c w]
    by (simp add: pg_find_works pg_start_works)
qed

lemma pg_end_works:
  assumes "\<not> ctx_done c" "w_faults w = []" "pg_uuid_in p (sess_machine_id sess) = Some m"
    and "tb_machines (w_db w) m = Some row" "m_status row = Online"
    and "m_last_connected_at row = Some (pg_time_in p (sess_connected_at sess))"
  shows "pg_end_session p c sess w =
    (None, w\<lparr>w_db := add_event \<lparr>e_id = w_event_seq w, e_machine_id = m, e_status = Offline,
                      e_occurred_at = pg_clock p (w_clock w)\<rparr>
                 (set_machine m (offline_row (pg_clock p (Suc (w_clock w)))
                    (pg_clock p (w_clock w + 2)) row) (w_db w)),
              w_clock := w_clock w + 3, w_event_seq := Suc (w_event_seq w)\<rparr>)"
  using assms
  by (simp add: pg_end_session_def mark_offline_def read_clock_def insert_event_def
      commit_tx_def Let_def set_machine_def domIff eval_nat_numeral)

section \<open>A superseded session is inert\<close>

lemma session_matches_view_touch:
  "pg_view w m = Some (b, Some t') \<Longrightarrow> t \<noteq> t' \<Longrightarrow>
     touch_tables m t seen updated (w_db w) = w_db w"
  by (auto simp: pg_view_def touch_tables_def split: option.splits)

lemma stale_end_inert:
  assumes "pg_store.stale p sess w"
  shows "w_db (snd (pg_end_session p c sess w)) = w_db w"
proof -
  obtain r w' where e: "pg_end_session p c sess w = (r, w')" by force
  obtain m b t where "pg_uuid_in p (sess_machine_id sess) = Some m" "pg_view w m = Some (b, Some t)"
    "pg_time_in p (sess_connected_at sess) < t"
    using assms by (auto simp: pg_store.stale_def)
  then show ?thesis
    using pg_end_cases [OF e] e by (auto simp: pg_view_matches split: if_splits)
qed

lemma stale_touch_inert:
  assumes "pg_store.stale p sess w"
  shows "w_db (snd (pg_touch_session p c sess w)) = w_db w"
proof -
  obtain r w' where e: "pg_touch_session p c sess w = (r, w')" by force
  obtain m b t where m: "pg_uuid_in p (sess_machine_id sess) = Some m"
    "pg_view w m = Some (b, Some t)" "pg_time_in p (sess_connected_at sess) < t"
    using assms by (auto simp: pg_store.stale_def)
  then have "touch_tables m (pg_time_in p (sess_connected_at sess)) seen updated (w_db w) = w_db w"
    for seen updated
    by (intro session_matches_view_touch) auto
  with pg_touch_cases [OF e] e m(1) show ?thesis by auto
qed

lemma stale_service_inert:
  assumes "pg_store.stale p sess w"
  shows "w_db (snd (close_session (pg_presence_store p) c sess w)) = w_db w"
    "w_db (snd (record_activity (pg_presence_store p) c sess w)) = w_db w"
  using stale_end_inert [OF assms, of c] stale_touch_inert [OF assms, of c]
  by (auto simp: close_session_def record_activity_def split: prod.split option.split)

section \<open>Properties\<close>

text \<open>C12: once a machine has reconnected, its earlier session is inert. Whatever opens, heartbeats
  and closes of any sessions happened between the two connections and after the second one, with
  any faults, a late heartbeat or close of the old session changes no row of the database: it
  neither takes the machine offline nor writes an event nor refreshes \<open>last_seen_at\<close>.\<close>

theorem superseded_session_inert:
  assumes "pg_ok p w"
    and "open_session ext (pg_presence_store p) c1 creds1 w = (Inr old, w1)"
    and "open_session ext (pg_presence_store p) c2 creds2
           (presence_run ext (pg_presence_store p) before w1) = (Inr new, w2)"
    and "pg_uuid_in p (sess_machine_id old) = pg_uuid_in p (sess_machine_id new)"
  shows "let w3 = presence_run ext (pg_presence_store p) after w2 in
    w_db (snd (close_session (pg_presence_store p) c old w3)) = w_db w3 \<and>
    w_db (snd (record_activity (pg_presence_store p) c old w3)) = w_db w3"
  using pg_store.superseded_stale [OF assms] by (simp add: Let_def stale_service_inert)

lemma demo_ok: "pg_ok sample_pg demo_world"
  by (simp add: pg_ok_def sample_pg_lawful stamps_past_def)

text \<open>The same with a concrete old and new session of the demo machine.\<close>

theorem superseded_session_inert_witness:
  "\<exists>old w1 new w2.
     open_session sample_externals (pg_presence_store sample_pg) background demo_credentials demo_world
       = (Inr old, w1) \<and>
     open_session sample_externals (pg_presence_store sample_pg) background demo_credentials w1
       = (Inr new, w2) \<and>
     (let w3 = presence_run sample_externals (pg_presence_store sample_pg)
                 [Op_Close background old, Op_Activity background new] w2 in
      w_db (snd (close_session (pg_presence_store sample_pg) background old w3)) = w_db w3 \<and>
      w_db (snd (record_activity (pg_presence_store sample_pg) background old w3)) = w_db w3)"
proof -
  let ?open = "open_session sample_externals (pg_presence_store sample_pg) background demo_credentials"
  obtain old w1 where o: "?open demo_world = (Inr old, w1)" "w_faults w1 = []"
    "tb_identities (w_db w1) = tb_identities (w_db demo_world)"
    "\<exists>row. tb_machines (w_db w1) 1 = Some row" "sess_machine_id old = bits_text 1"
    by (simp add: open_session_works [OF sample_pg_lawful _ _ demo_presentable]
        online_tables_def Let_def set_machine_def add_event_def)
  from o(2-4) obtain new w2 where n: "?open w1 = (Inr new, w2)" "sess_machine_id new = bits_text 1"
    by (auto simp: open_session_works [OF sample_pg_lawful _ _ demo_presentable])
  have "?open (presence_run sample_externals (pg_presence_store sample_pg) [] w1) = (Inr new, w2)"
    "pg_uuid_in sample_pg (sess_machine_id old) = pg_uuid_in sample_pg (sess_machine_id new)"
    using n o(5) by simp_all
  from superseded_session_inert [OF demo_ok o(1) this] o(1) n(1) show ?thesis by blast
qed

end
