(* ===== verification/Telemetry_Store.thy ===== *)
theory Telemetry_Store
  imports Sample_Platform Telemetry
begin

text \<open>
  \<^verbatim>\<open>server/internal/repository/postgres/telemetry_store.go\<close>: the upsert of one sample under the
  key (machine, collection time). Telemetry's own checks are shown to be enough for the table's
  check constraints.
\<close>

section \<open>The statement\<close>

definition sample_values :: "sample \<Rightarrow> int \<Rightarrow> int \<Rightarrow> sample_row" where
  "sample_values smp cpu received =
     \<lparr>t_received_at = received, t_cpu_usage_percent = cpu,
      t_memory_total_bytes = smp_memory_total_bytes smp,
      t_memory_used_bytes = smp_memory_used_bytes smp,
      t_disk_total_bytes = smp_disk_total_bytes smp,
      t_disk_used_bytes = smp_disk_used_bytes smp,
      t_uptime_seconds = smp_uptime_seconds smp\<rparr>"

text \<open>\<open>received_at\<close> is \<open>now()\<close> for an insert and \<open>clock_timestamp()\<close> for an update.\<close>

definition upsert_sample ::
  "pg \<Rightarrow> uuid \<Rightarrow> int \<Rightarrow> sample \<Rightarrow> tables \<Rightarrow> int \<Rightarrow> int \<Rightarrow> go_error + tables" where
  "upsert_sample p m collected smp tb now updated =
     (case pg_numeric p (smp_cpu_usage_percent smp) of
        None \<Rightarrow> Inl bad_parameter
      | Some cpu \<Rightarrow>
          let row = sample_values smp cpu
                      (if (m, collected) \<in> dom (tb_samples tb) then updated else now)
          in if \<not> sample_check row \<or> m \<notin> dom (tb_machines tb) then Inl constraint_failure
             else Inr (tb\<lparr>tb_samples := (tb_samples tb)((m, collected) \<mapsto> row)\<rparr>))"

definition pg_record :: "pg \<Rightarrow> ctx \<Rightarrow> sample \<Rightarrow> world \<Rightarrow> go_error option \<times> world" where
  "pg_record p c smp w =
     (case read_clock p w of
        (now, w) \<Rightarrow>
     (case read_clock p w of
        (updated, w) \<Rightarrow>
     (case (case pg_uuid_in p (smp_machine_id smp) of
              None \<Rightarrow> Inl bad_parameter
            | Some m \<Rightarrow> upsert_sample p m (pg_time_in p (smp_collected_at smp)) smp (w_db w)
                          now updated) of
        Inl e \<Rightarrow>
          (case tx_round_trip c w of
             (Some e', w) \<Rightarrow> (Some (wrap_error ''upsert telemetry sample: '' e'), w)
           | (None, w) \<Rightarrow> (Some (wrap_error ''upsert telemetry sample: '' e), w))
      | Inr tb \<Rightarrow>
          (case install c tb w of
             (Some e, w) \<Rightarrow> (Some (wrap_error ''upsert telemetry sample: '' e), w)
           | (None, w) \<Rightarrow> (None, w)))))"

definition pg_telemetry_store :: "pg \<Rightarrow> world telemetry_store" where
  "pg_telemetry_store p = \<lparr>store_record = pg_record p\<rparr>"

lemma pg_telemetry_store_simps [simp]: "store_record (pg_telemetry_store p) = pg_record p"
  by (simp add: pg_telemetry_store_def)

section \<open>What a record does\<close>

lemma pg_record_cases:
  assumes "pg_record p c smp w = (r, w')"
  shows "w_clock w \<le> w_clock w' \<and> w_uuids w' = w_uuids w \<and> w_event_seq w' = w_event_seq w \<and>
    (w_db w' = w_db w \<and> r \<noteq> None \<or>
     (\<exists>m. pg_uuid_in p (smp_machine_id smp) = Some m \<and>
        upsert_sample p m (pg_time_in p (smp_collected_at smp)) smp (w_db w)
          (pg_clock p (w_clock w)) (pg_clock p (Suc (w_clock w))) = Inr (w_db w')))"
proof -
  define w2 where "w2 = w\<lparr>w_clock := Suc (Suc (w_clock w))\<rparr>"
  define u where "u = (case pg_uuid_in p (smp_machine_id smp) of
      None \<Rightarrow> Inl bad_parameter
    | Some m \<Rightarrow> upsert_sample p m (pg_time_in p (smp_collected_at smp)) smp (w_db w)
        (pg_clock p (w_clock w)) (pg_clock p (Suc (w_clock w))))"
  have eq: "pg_record p c smp w =
     (case u of
        Inl e \<Rightarrow>
          (case tx_round_trip c w2 of
             (Some e', w) \<Rightarrow> (Some (wrap_error ''upsert telemetry sample: '' e'), w)
           | (None, w) \<Rightarrow> (Some (wrap_error ''upsert telemetry sample: '' e), w))
      | Inr tb \<Rightarrow>
          (case install c tb w2 of
             (Some e, w) \<Rightarrow> (Some (wrap_error ''upsert telemetry sample: '' e), w)
           | (None, w) \<Rightarrow> (None, w)))"
    by (simp add: pg_record_def read_clock_def u_def w2_def split: sum.split option.split)
  show ?thesis
  proof (cases u)
    case (Inl e)
    with assms eq show ?thesis
      by (auto simp: w2_def split: prod.splits option.splits dest!: tx_round_trip_frame)
  next
    case (Inr tb)
    obtain ri wi where i: "install c tb w2 = (ri, wi)" by force
    with assms eq Inr have "w' = wi" "r = None \<longleftrightarrow> ri = None"
      by (auto split: option.splits)
    with install_cases [OF i] Inr show ?thesis
      by (auto simp: w2_def u_def split: option.splits)
  qed
qed

lemma upsert_sample_Inr:
  "upsert_sample p m t smp tb now updated = Inr tb' \<Longrightarrow>
     \<exists>cpu received. pg_numeric p (smp_cpu_usage_percent smp) = Some cpu \<and> m \<in> dom (tb_machines tb) \<and>
       sample_check (sample_values smp cpu received) \<and>
       tb' = tb\<lparr>tb_samples := (tb_samples tb)((m, t) \<mapsto> sample_values smp cpu received)\<rparr>"
  by (auto simp: upsert_sample_def Let_def split: option.splits if_splits)

text \<open>A sample that passed the service's checks never violates a check of the table.\<close>

lemma valid_sample_check:
  assumes "pg_lawful p" "valid_sample smp"
  shows "\<exists>cpu. pg_numeric p (smp_cpu_usage_percent smp) = Some cpu \<and>
    (\<forall>received. sample_check (sample_values smp cpu received))"
proof -
  from assms(2) have "f64_between_0_100 (smp_cpu_usage_percent smp)"
    by (simp add: valid_sample_def)
  then obtain cpu where "pg_numeric p (smp_cpu_usage_percent smp) = Some cpu" "0 \<le> cpu" "cpu \<le> 10000"
    using pg_lawfulD(7) [OF assms(1)] by blast
  with assms(2) show ?thesis
    by (auto simp: valid_sample_def sample_check_def sample_values_def)
qed

lemma upsert_valid:
  assumes "pg_lawful p" "valid_sample smp" "m \<in> dom (tb_machines tb)"
  shows "\<exists>tb'. upsert_sample p m t smp tb now updated = Inr tb'"
proof -
  obtain cpu where cpu: "pg_numeric p (smp_cpu_usage_percent smp) = Some cpu"
    and chk: "\<And>received. sample_check (sample_values smp cpu received)"
    using valid_sample_check [OF assms(1,2)] by blast
  show ?thesis
    using assms(3) by (simp add: upsert_sample_def cpu chk Let_def)
qed

lemma record_sample_works:
  assumes "pg_lawful p" "\<not> ctx_done c" "w_faults w = []"
    and "valid_sample smp" "pg_uuid_in p (smp_machine_id smp) = Some m"
    and "m \<in> dom (tb_machines (w_db w))"
  obtains w' cpu received where
    "record_sample (pg_telemetry_store p) c smp w = (None, w')" "w_faults w' = []"
    "0 \<le> cpu" "cpu \<le> 10000" "pg_numeric p (smp_cpu_usage_percent smp) = Some cpu"
    "w_db w' = (w_db w)\<lparr>tb_samples := (tb_samples (w_db w))
      ((m, pg_time_in p (smp_collected_at smp)) \<mapsto> sample_values smp cpu received)\<rparr>"
proof -
  obtain r w' where rec: "pg_record p c smp w = (r, w')" by force
  obtain tb' where up: "upsert_sample p m (pg_time_in p (smp_collected_at smp)) smp (w_db w)
      (pg_clock p (w_clock w)) (pg_clock p (Suc (w_clock w))) = Inr tb'"
    using upsert_valid [OF assms(1,4,6)] by blast
  have w': "r = None" "w_db w' = tb'" "w_faults w' = []"
    using rec up assms(2,3,5) by (auto simp: pg_record_def read_clock_def)
  obtain cpu received where tb': "sample_check (sample_values smp cpu received)"
    "pg_numeric p (smp_cpu_usage_percent smp) = Some cpu"
    "tb' = (w_db w)\<lparr>tb_samples := (tb_samples (w_db w))
      ((m, pg_time_in p (smp_collected_at smp)) \<mapsto> sample_values smp cpu received)\<rparr>"
    using upsert_sample_Inr [OF up] by blast
  show thesis
  proof (rule that [of w' cpu received])
    show "record_sample (pg_telemetry_store p) c smp w = (None, w')"
      using rec w'(1) assms(4) by (simp add: record_sample_valid)
    show "0 \<le> cpu" "cpu \<le> 10000" using tb'(1) by (simp_all add: sample_check_def sample_values_def)
  qed (use w' tb'(2,3) in simp_all)
qed

section \<open>The contract\<close>

definition sample_key :: "pg \<Rightarrow> sample \<Rightarrow> (uuid \<times> int) option" where
  "sample_key p smp =
     map_option (\<lambda>m. (m, pg_time_in p (smp_collected_at smp))) (pg_uuid_in p (smp_machine_id smp))"

definition sample_kept :: "pg \<Rightarrow> sample \<Rightarrow> sample_row \<Rightarrow> bool" where
  "sample_kept p smp row \<longleftrightarrow> sample_check row \<and>
     (\<exists>cpu received. pg_numeric p (smp_cpu_usage_percent smp) = Some cpu \<and>
        row = sample_values smp cpu received)"

definition other_tables :: "world \<Rightarrow> (uuid \<rightharpoonup> machine_row) \<times> identity_row list \<times> event_row list" where
  "other_tables w = (tb_machines (w_db w), tb_identities (w_db w), tb_events (w_db w))"

lemma pg_record_contract:
  assumes "pg_record p c smp w = (r, w')"
  shows "other_tables w' = other_tables w \<and>
    (r \<noteq> None \<and> tb_samples (w_db w') = tb_samples (w_db w) \<or>
     (\<exists>k row. sample_key p smp = Some k \<and> sample_kept p smp row \<and>
        tb_samples (w_db w') = (tb_samples (w_db w))(k \<mapsto> row)))"
proof -
  consider "w_db w' = w_db w" "r \<noteq> None"
    | m where "pg_uuid_in p (smp_machine_id smp) = Some m"
      "upsert_sample p m (pg_time_in p (smp_collected_at smp)) smp (w_db w)
        (pg_clock p (w_clock w)) (pg_clock p (Suc (w_clock w))) = Inr (w_db w')"
    using pg_record_cases [OF assms] by blast
  then show ?thesis
  proof cases
    case 1
    then show ?thesis by (simp add: other_tables_def)
  next
    case (2 m)
    obtain cpu received where row: "sample_kept p smp (sample_values smp cpu received)"
      "w_db w' = (w_db w)\<lparr>tb_samples := (tb_samples (w_db w))
        ((m, pg_time_in p (smp_collected_at smp)) \<mapsto> sample_values smp cpu received)\<rparr>"
      using upsert_sample_Inr [OF 2(2)] by (auto simp: sample_kept_def)
    moreover have "sample_key p smp = Some (m, pg_time_in p (smp_collected_at smp))"
      using 2(1) by (simp add: sample_key_def)
    ultimately show ?thesis unfolding other_tables_def by fastforce
  qed
qed

interpretation pg_telemetry: telemetry_contract "pg_telemetry_store p" "\<lambda>w. tb_samples (w_db w)"
  other_tables "sample_key p" "sample_kept p" for p
  by (unfold_locales; unfold pg_telemetry_store_simps; drule pg_record_contract; blast)

section \<open>Properties\<close>

text \<open>C23: whatever the arguments and whatever goes wrong, recording a sample touches at most one row: the
  machines, identities and presence events stay, and the samples stay as they are, with an error, or
  gain or replace exactly the row of this machine and time of collection, which then holds the values
  of a valid sample and meets the checks of the table.\<close>

theorem record_touches_one_row:
  assumes "record_sample (pg_telemetry_store p) c smp w = (r, w')"
  shows "other_tables w' = other_tables w \<and>
    (r \<noteq> None \<and> tb_samples (w_db w') = tb_samples (w_db w) \<or>
     valid_sample smp \<and>
     (\<exists>k row. sample_key p smp = Some k \<and> sample_kept p smp row \<and>
        tb_samples (w_db w') = (tb_samples (w_db w))(k \<mapsto> row)))"
  by (rule pg_telemetry.record_sample_outcome [OF assms])

text \<open>C22: once a machine exists, storing a sample the service accepted cannot fail on a constraint of
  the table: with a working database it succeeds and the row under (machine, collection time)
  holds the sample's amounts and its percentage as the database converts it, in hundredths within 0
  and 10000, whether or not a row was there before; no other row changes.\<close>

theorem record_valid_sample_stored:
  assumes "pg_lawful p" "\<not> ctx_done c" "w_faults w = []"
    and "valid_sample smp" "pg_uuid_in p (smp_machine_id smp) = Some m"
    and "m \<in> dom (tb_machines (w_db w))"
  shows "\<exists>w' cpu received. record_sample (pg_telemetry_store p) c smp w = (None, w') \<and>
    0 \<le> cpu \<and> cpu \<le> 10000 \<and> pg_numeric p (smp_cpu_usage_percent smp) = Some cpu \<and>
    w_db w' = (w_db w)\<lparr>tb_samples := (tb_samples (w_db w))
      ((m, pg_time_in p (smp_collected_at smp)) \<mapsto> sample_values smp cpu received)\<rparr>"
  by (rule record_sample_works [OF assms]) blast

theorem record_valid_sample_stored_witness:
  "\<exists>w' cpu received. record_sample (pg_telemetry_store sample_pg) background
      \<lparr>smp_machine_id = bits_text 1, smp_collected_at = 5000, smp_cpu_usage_percent = f64_hundred,
       smp_memory_total_bytes = 8, smp_memory_used_bytes = 3, smp_disk_total_bytes = 9,
       smp_disk_used_bytes = 9, smp_uptime_seconds = 60\<rparr> demo_world = (None, w') \<and>
    0 \<le> cpu \<and> cpu \<le> 10000 \<and> pg_numeric sample_pg f64_hundred = Some cpu \<and>
    w_db w' = (w_db demo_world)\<lparr>tb_samples := (tb_samples (w_db demo_world))
      ((1, 5) \<mapsto> \<lparr>t_received_at = received, t_cpu_usage_percent = cpu, t_memory_total_bytes = 8,
        t_memory_used_bytes = 3, t_disk_total_bytes = 9, t_disk_used_bytes = 9,
        t_uptime_seconds = 60\<rparr>)\<rparr>"
proof -
  define smp where "smp = \<lparr>smp_machine_id = bits_text 1, smp_collected_at = 5000,
    smp_cpu_usage_percent = f64_hundred, smp_memory_total_bytes = 8, smp_memory_used_bytes = 3,
    smp_disk_total_bytes = 9, smp_disk_used_bytes = 9, smp_uptime_seconds = 60\<rparr>"
  have "f64_between_0_100 f64_hundred"
    by code_simp
  then have "valid_sample smp"
    by (simp add: valid_sample_def smp_def bits_text_not_blank)
  moreover have "pg_uuid_in sample_pg (smp_machine_id smp) = Some 1"
    "pg_time_in sample_pg (smp_collected_at smp) = 5"
    by (simp_all add: smp_def) (simp add: sample_pg_def)
  ultimately show ?thesis
    using record_valid_sample_stored [of sample_pg background demo_world smp 1]
    by (simp add: sample_pg_lawful sample_values_def flip: smp_def) (simp add: smp_def)
qed

text \<open>A sample of a machine that is not there.\<close>

theorem record_touches_one_row_witness:
  "\<exists>r w'. record_sample (pg_telemetry_store sample_pg) background
      \<lparr>smp_machine_id = bits_text 7, smp_collected_at = 5000, smp_cpu_usage_percent = 0,
       smp_memory_total_bytes = 8, smp_memory_used_bytes = 3, smp_disk_total_bytes = 9,
       smp_disk_used_bytes = 9, smp_uptime_seconds = 60\<rparr> demo_world = (r, w') \<and>
    other_tables w' = other_tables demo_world"
proof -
  obtain r w' where "record_sample (pg_telemetry_store sample_pg) background
      \<lparr>smp_machine_id = bits_text 7, smp_collected_at = 5000, smp_cpu_usage_percent = 0,
       smp_memory_total_bytes = 8, smp_memory_used_bytes = 3, smp_disk_total_bytes = 9,
       smp_disk_used_bytes = 9, smp_uptime_seconds = 60\<rparr> demo_world = (r, w')" by force
  with record_touches_one_row [OF this] show ?thesis by blast
qed

end
