(* ===== verification/Server_Database.thy ===== *)
theory Server_Database
  imports Enrollment_Store Presence_Store Telemetry_Store
begin

text \<open>
  The database under all three stores together. \<open>store_step\<close> is one call of any store operation
  with any arguments and any faults, \<open>db_reachable\<close> what such calls make of the empty database,
  and \<open>world_ok\<close> the invariant: every constraint of the migration holds, every machine has an
  identity, and per machine the presence events tell the story of its status.
\<close>

section \<open>The history of a machine\<close>

definition machine_log :: "tables \<Rightarrow> uuid \<Rightarrow> machine_status list" where
  "machine_log tb m = map e_status (filter (\<lambda>e. e_machine_id e = m) (tb_events tb))"

text \<open>Online, offline, online, ... starting with online.\<close>

definition alternates :: "machine_status list \<Rightarrow> bool" where
  "alternates xs \<longleftrightarrow> (\<forall>i < length xs. xs ! i = (if even i then Online else Offline))"

definition history_ok :: "machine_status \<Rightarrow> machine_status list \<Rightarrow> bool" where
  "history_ok st xs \<longleftrightarrow> alternates xs \<and> st \<noteq> Degraded \<and>
     (st = Online \<longleftrightarrow> odd (length xs)) \<and> (st = Unknown \<longleftrightarrow> xs = [])"

lemma alternates_snoc:
  "alternates (xs @ [x]) \<longleftrightarrow> alternates xs \<and> x = (if even (length xs) then Online else Offline)"
  by (auto simp: alternates_def nth_append less_Suc_eq)

lemma history_ok_new: "history_ok Unknown []"
  by (simp add: history_ok_def alternates_def)

lemma history_ok_online: "history_ok st xs \<Longrightarrow> st \<noteq> Online \<Longrightarrow> history_ok Online (xs @ [Online])"
  by (auto simp: history_ok_def alternates_snoc)

lemma history_ok_offline: "history_ok Online xs \<Longrightarrow> history_ok Offline (xs @ [Offline])"
  by (auto simp: history_ok_def alternates_snoc)

lemma history_ok_last:
  assumes "history_ok st xs" "xs \<noteq> []"
  shows "last xs = st"
proof -
  obtain ys y where xs: "xs = ys @ [y]" using assms(2) by (metis rev_exhaust)
  show ?thesis
    using assms(1) unfolding xs history_ok_def alternates_snoc
    by (cases st) (auto split: if_splits)
qed

section \<open>The invariant\<close>

definition schema_ok :: "pg \<Rightarrow> tables \<Rightarrow> bool" where
  "schema_ok p tb \<longleftrightarrow>
     (\<forall>m row. tb_machines tb m = Some row \<longrightarrow>
        machine_check p row \<and> history_ok (m_status row) (machine_log tb m) \<and>
        (\<exists>i \<in> set (tb_identities tb). i_machine_id i = m)) \<and>
     (\<forall>i \<in> set (tb_identities tb). i_machine_id i \<in> dom (tb_machines tb)) \<and>
     distinct (map i_id (tb_identities tb)) \<and> distinct (map i_agent_id (tb_identities tb)) \<and>
     distinct (map i_machine_id (filter (\<lambda>i. i_revoked_at i = None) (tb_identities tb))) \<and>
     (\<forall>e \<in> set (tb_events tb). e_machine_id e \<in> dom (tb_machines tb)) \<and>
     distinct (map e_id (tb_events tb)) \<and>
     (\<forall>m t row. tb_samples tb (m, t) = Some row \<longrightarrow>
        m \<in> dom (tb_machines tb) \<and> sample_check row)"

definition world_ok :: "pg \<Rightarrow> world \<Rightarrow> bool" where
  "world_ok p w \<longleftrightarrow> schema_ok p (w_db w) \<and> (\<forall>e \<in> set (tb_events (w_db w)). e_id e < w_event_seq w)"

lemma world_ok_empty: "world_ok p (empty_world fs)"
  by (simp add: world_ok_def schema_ok_def empty_world_def empty_tables_def)

lemma world_ok_same:
  "world_ok p w \<Longrightarrow> w_db w' = w_db w \<Longrightarrow> w_event_seq w \<le> w_event_seq w' \<Longrightarrow> world_ok p w'"
  by (fastforce simp: world_ok_def)

lemma machine_log_simps [simp]:
  "machine_log (set_machine m row tb) = machine_log tb"
  "machine_log (add_event e tb) m = machine_log tb m @ (if e_machine_id e = m then [e_status e] else [])"
  by (simp_all add: machine_log_def set_machine_def add_event_def fun_eq_iff)

text \<open>Replacing a machine's row by one with the same metadata.\<close>

lemma schema_ok_set_machine:
  assumes "schema_ok p tb" "tb_machines tb m = Some row" "machine_check p row'"
    and "history_ok (m_status row') (machine_log tb m)"
  shows "schema_ok p (set_machine m row' tb)"
  using assms unfolding schema_ok_def machine_log_simps
  by (auto simp: set_machine_def)

text \<open>The same with an event of the machine, as the session transactions write them.\<close>

lemma schema_ok_event:
  assumes "schema_ok p tb" "tb_machines tb m = Some row" "machine_check p row'"
    and "history_ok (m_status row') (machine_log tb m @ [st])"
    and "eid \<notin> e_id ` set (tb_events tb)"
  shows "schema_ok p (add_event \<lparr>e_id = eid, e_machine_id = m, e_status = st, e_occurred_at = now\<rparr>
    (set_machine m row' tb))"
  using assms unfolding schema_ok_def machine_log_simps
  by (auto simp: set_machine_def add_event_def)

lemma machine_check_rows [simp]:
  "machine_check p (online_row t seen updated row) = machine_check p row"
  "machine_check p (offline_row t updated row) = machine_check p row"
  "machine_check p (row\<lparr>m_last_seen_at := x, m_updated_at := y\<rparr>) = machine_check p row"
  by (simp_all add: machine_check_def online_row_def offline_row_def)

lemma row_status [simp]:
  "m_status (online_row t seen updated row) = Online"
  "m_status (offline_row t updated row) = Offline"
  by (simp_all add: online_row_def offline_row_def)

lemma schema_ok_row:
  "schema_ok p tb \<Longrightarrow> tb_machines tb m = Some row \<Longrightarrow>
     machine_check p row \<and> history_ok (m_status row) (machine_log tb m)"
  by (simp add: schema_ok_def)

lemma schema_ok_started:
  assumes "schema_ok p tb" "session_started m t eid tb tb'" "eid \<notin> e_id ` set (tb_events tb)"
  shows "schema_ok p tb'"
proof -
  obtain row seen updated now where row: "tb_machines tb m = Some row"
    and tb': "tb' = (let tb1 = set_machine m (online_row t seen updated row) tb
               in if m_status row = Online then tb1
                  else add_event \<lparr>e_id = eid, e_machine_id = m, e_status = Online,
                                  e_occurred_at = now\<rparr> tb1)"
    using assms(2) unfolding session_started_def by blast
  note ok = schema_ok_row [OF assms(1) row]
  show ?thesis
  proof (cases "m_status row = Online")
    case True
    with tb' ok show ?thesis by (simp add: schema_ok_set_machine [OF assms(1) row])
  next
    case False
    with ok have "history_ok Online (machine_log tb m @ [Online])"
      by (blast intro: history_ok_online)
    with False tb' ok show ?thesis
      by (simp add: schema_ok_event [OF assms(1) row _ _ assms(3)] del: machine_log_simps)
  qed
qed

lemma schema_ok_ended:
  assumes "schema_ok p tb" "session_ended m t eid tb tb'" "eid \<notin> e_id ` set (tb_events tb)"
  shows "schema_ok p tb'"
proof -
  obtain row disconnected updated now where row: "tb_machines tb m = Some row" "m_status row = Online"
    and tb': "tb' = add_event \<lparr>e_id = eid, e_machine_id = m, e_status = Offline, e_occurred_at = now\<rparr>
                (set_machine m (offline_row disconnected updated row) tb)"
    using assms(2) unfolding session_ended_def by blast
  have "history_ok Offline (machine_log tb m @ [Offline])"
    using schema_ok_row [OF assms(1) row(1)] row(2) by (simp add: history_ok_offline)
  then show ?thesis
    unfolding tb' using schema_ok_row [OF assms(1) row(1)]
    by (intro schema_ok_event [OF assms(1) row(1) _ _ assms(3)]) simp_all
qed

lemma schema_ok_touch:
  "schema_ok p tb \<Longrightarrow> schema_ok p (touch_tables m t seen updated tb)"
  by (auto simp: touch_tables_def split: option.split dest: schema_ok_row
      intro!: schema_ok_set_machine)

lemma schema_ok_sample:
  "schema_ok p tb \<Longrightarrow> upsert_sample p m t smp tb now updated = Inr tb' \<Longrightarrow> schema_ok p tb'"
  by (drule upsert_sample_Inr) (fastforce simp: schema_ok_def machine_log_def split: if_splits)

lemma schema_ok_enrolled:
  assumes "schema_ok p tb" "added_enrollment p se mid aid tb tb'"
  shows "schema_ok p tb'"
proof -
  obtain now iid where new: "mid \<notin> dom (tb_machines tb)" "\<forall>j \<in> set (tb_identities tb). i_agent_id j \<noteq> aid"
    "\<forall>j \<in> set (tb_identities tb). i_id j \<noteq> iid" "machine_check p (new_machine_row se now)"
    "tb' = tb\<lparr>tb_machines := (tb_machines tb)(mid \<mapsto> new_machine_row se now),
              tb_identities := tb_identities tb @ [new_identity_row se iid mid aid now]\<rparr>"
    using assms(2) unfolding added_enrollment_def by blast
  have "machine_log tb mid = []"
    using assms(1) new(1) by (auto simp: schema_ok_def machine_log_def filter_empty_conv)
  moreover have "\<forall>i \<in> set (tb_identities tb). i_machine_id i \<noteq> mid"
    using assms(1) new(1) by (auto simp: schema_ok_def)
  moreover have "machine_log tb' = machine_log tb"
    by (simp add: new(5) machine_log_def fun_eq_iff)
  ultimately show ?thesis
    using assms(1) new(1-4) unfolding schema_ok_def new(5)
    by (auto simp: new_machine_row_def new_identity_row_def history_ok_new)
qed

section \<open>Steps and reachable worlds\<close>

inductive store_step :: "pg \<Rightarrow> world \<Rightarrow> world \<Rightarrow> bool" for p where
  step_enroll: "pg_enroll p c se w = (r1, w') \<Longrightarrow> store_step p w w'"
| step_find: "pg_find_active_identity p c a w = (r2, w') \<Longrightarrow> store_step p w w'"
| step_start: "pg_start_session p c mid w = (r3, w') \<Longrightarrow> store_step p w w'"
| step_touch: "pg_touch_session p c sess w = (r4, w') \<Longrightarrow> store_step p w w'"
| step_end: "pg_end_session p c sess w = (r5, w') \<Longrightarrow> store_step p w w'"
| step_record: "pg_record p c smp w = (r6, w') \<Longrightarrow> store_step p w w'"

inductive db_reachable :: "pg \<Rightarrow> world \<Rightarrow> bool" for p where
  reach_init: "db_reachable p (empty_world fs)"
| reach_step: "db_reachable p w \<Longrightarrow> store_step p w w' \<Longrightarrow> db_reachable p w'"

lemma unused_event_id: "world_ok p w \<Longrightarrow> w_event_seq w \<notin> e_id ` set (tb_events (w_db w))"
  by (auto simp: world_ok_def)

lemma world_ok_started:
  assumes "world_ok p w" "session_started m t (w_event_seq w) (w_db w) (w_db w')" "later w w'"
    and "tb_events (w_db w') = tb_events (w_db w) \<or> w_event_seq w < w_event_seq w'"
  shows "world_ok p w'"
proof -
  have "set (tb_events (w_db w')) \<subseteq> set (tb_events (w_db w)) \<union> {e. e_id e = w_event_seq w}"
    using assms(2)
    by (auto simp: session_started_def set_machine_def add_event_def Let_def split: if_splits)
  with assms(1,3,4) have "\<forall>e \<in> set (tb_events (w_db w')). e_id e < w_event_seq w'"
    by (fastforce simp: world_ok_def later_def)
  with assms(1,2) schema_ok_started unused_event_id [OF assms(1)] show ?thesis
    unfolding world_ok_def by blast
qed

lemma world_ok_ended:
  assumes "world_ok p w" "session_ended m t (w_event_seq w) (w_db w) (w_db w')"
    and "w_event_seq w < w_event_seq w'"
  shows "world_ok p w'"
proof -
  have "set (tb_events (w_db w')) \<subseteq> set (tb_events (w_db w)) \<union> {e. e_id e = w_event_seq w}"
    using assms(2) by (auto simp: session_ended_def set_machine_def add_event_def)
  with assms(1,3) have "\<forall>e \<in> set (tb_events (w_db w')). e_id e < w_event_seq w'"
    by (fastforce simp: world_ok_def)
  with assms(1,2) schema_ok_ended unused_event_id [OF assms(1)] show ?thesis
    unfolding world_ok_def by blast
qed

lemma same_events:
  "added_enrollment p se mid aid tb tb' \<Longrightarrow> tb_events tb' = tb_events tb"
  "tb_events (touch_tables m t seen updated tb) = tb_events tb"
  "upsert_sample p m t smp tb now updated = Inr tb' \<Longrightarrow> tb_events tb' = tb_events tb"
  by (auto simp: added_enrollment_def touch_tables_def set_machine_def
      dest: upsert_sample_Inr split: option.split)

lemma store_step_world_ok: "store_step p w w' \<Longrightarrow> world_ok p w \<Longrightarrow> world_ok p w'"
proof (induction rule: store_step.induct)
  case (step_enroll c se w r1 w')
  from pg_enroll_cases [OF step_enroll(1)] show ?case
    using step_enroll(2)
    by (auto simp: world_ok_def same_events(1) intro: schema_ok_enrolled)
next
  case (step_find c a w r2 w')
  with pg_find_frame [OF step_find(1)] show ?case by (auto intro: world_ok_same)
next
  case (step_start c mid w r3 w')
  from pg_start_cases [OF step_start(1)] show ?case
    using step_start(2) by (auto intro: world_ok_same world_ok_started simp: later_def)
next
  case (step_touch c sess w r4 w')
  from pg_touch_cases [OF step_touch(1)] show ?case
    using step_touch(2)
    by (auto simp: world_ok_def later_def same_events(2) intro: schema_ok_touch)
next
  case (step_end c sess w r5 w')
  from pg_end_cases [OF step_end(1)] show ?case
    using step_end(2) by (auto intro: world_ok_same world_ok_ended simp: later_def split: if_splits)
next
  case (step_record c smp w r6 w')
  from pg_record_cases [OF step_record(1)] show ?case
    using step_record(2)
    by (auto simp: world_ok_def same_events(3) intro: schema_ok_sample)
qed

lemma db_reachable_world_ok: "db_reachable p w \<Longrightarrow> world_ok p w"
  by (induction rule: db_reachable.induct) (auto intro: world_ok_empty store_step_world_ok)

section \<open>A session from start to end\<close>

lemma round_trip_no_faults: "round_trip c w = (r, w') \<Longrightarrow> w_faults w = [] \<Longrightarrow> w_faults w' = []"
  by (auto simp: round_trip_def split: if_splits)

lemma install_no_faults: "install c tb w = (r, w') \<Longrightarrow> w_faults w = [] \<Longrightarrow> w_faults w' = []"
  by (auto simp: install_def split: prod.splits sum.splits fault.splits dest: round_trip_no_faults)

lemma touch_no_faults: "pg_touch_session p c sess w = (r, w') \<Longrightarrow> w_faults w = [] \<Longrightarrow> w_faults w' = []"
  by (auto simp: pg_touch_session_def tx_round_trip_def read_clock_def
      split: option.splits prod.splits sum.splits fault.splits
      dest: round_trip_no_faults install_no_faults)

definition only_activity :: "presence_op list \<Rightarrow> bool" where
  "only_activity = list_all (\<lambda>op. case op of Op_Activity _ _ \<Rightarrow> True | _ \<Rightarrow> False)"

lemma activity_steps:
  "only_activity ops \<Longrightarrow> w_faults w = [] \<Longrightarrow>
     w_faults (presence_run ext (pg_presence_store p) ops w) = [] \<and>
     pg_view (presence_run ext (pg_presence_store p) ops w) = pg_view w \<and>
     tb_events (w_db (presence_run ext (pg_presence_store p) ops w)) = tb_events (w_db w)"
proof (induction ops arbitrary: w)
  case (Cons op ops)
  then obtain c sess where op: "op = Op_Activity c sess" "only_activity ops"
    by (cases op) (simp_all add: only_activity_def)
  obtain r w' where t: "pg_touch_session p c sess w = (r, w')" by force
  have "snd (record_activity (pg_presence_store p) c sess w) = w'"
    by (simp add: record_activity_def t split: option.split)
  moreover have "tb_events (w_db w') = tb_events (w_db w)"
    using pg_touch_cases [OF t] by (auto simp: same_events)
  moreover have "pg_view w' = pg_view w"
    using pg_touch_cases [OF t] by (auto dest: pg_view_touch pg_view_db)
  ultimately show ?case
    using Cons.IH [OF op(2), of w'] touch_no_faults [OF t Cons.prems(2)] op(1) by simp
qed (simp add: only_activity_def)

lemma machine_log_events: "tb_events tb' = tb_events tb \<Longrightarrow> machine_log tb' = machine_log tb"
  by (simp add: machine_log_def fun_eq_iff)

section \<open>Properties\<close>

text \<open>Whatever calls the stores have served, with any arguments and any faults, every constraint
  of the migration holds: column checks, foreign keys, unique ids, at most one active identity per
  machine; and every machine has an identity.\<close>

theorem reachable_schema:
  assumes "db_reachable p w"
  shows "schema_ok p (w_db w)"
  using db_reachable_world_ok [OF assms] by (simp add: world_ok_def)

text \<open>C14: the presence events of every machine alternate online, offline, online, ..., starting with
  online, and the machine's status is the last of them (\<open>unknown\<close> before the first connection).\<close>

theorem presence_history:
  assumes "db_reachable p w" "tb_machines (w_db w) m = Some row"
  shows "alternates (machine_log (w_db w) m) \<and>
    m_status row = (if machine_log (w_db w) m = [] then Unknown else last (machine_log (w_db w) m))"
proof -
  have "history_ok (m_status row) (machine_log (w_db w) m)"
    using db_reachable_world_ok [OF assms(1)] schema_ok_row [of p, OF _ assms(2)]
    by (auto simp: world_ok_def)
  from this history_ok_last [OF this] show ?thesis
    by (auto simp: history_ok_def)
qed

text \<open>The life of a session on a working database, from valid credentials of an active identity:
  the connection is accepted and the machine is online with the session's time; after any number
  of heartbeats of any sessions, closing succeeds, the machine is offline, and its presence log has
  grown by exactly one \<open>offline\<close>, after one \<open>online\<close> unless it was online already.\<close>

theorem session_life:
  assumes "pg_lawful p" "\<not> ctx_done c" "\<not> ctx_done c'" "w_faults w = []"
    and "presentable ext creds" "pg_uuid_in p (cred_agent_id creds) = Some a"
    and "active_identity a (tb_identities (w_db w)) = Some i"
    and "i_credential_hash i = sha256 (string_bytes (cred_secret creds))"
    and "tb_machines (w_db w) (i_machine_id i) = Some row" "only_activity beats"
  shows "\<exists>sess w1 w3.
    open_session ext (pg_presence_store p) c creds w = (Inr sess, w1) \<and>
    pg_view w1 (i_machine_id i) = Some (True, Some (pg_time_in p (sess_connected_at sess))) \<and>
    close_session (pg_presence_store p) c' sess (presence_run ext (pg_presence_store p) beats w1)
      = (None, w3) \<and>
    pg_view w3 = (pg_view w)(i_machine_id i \<mapsto> (False, Some (pg_time_in p (sess_connected_at sess)))) \<and>
    machine_log (w_db w3) (i_machine_id i) = machine_log (w_db w) (i_machine_id i)
      @ (if m_status row = Online then [Offline] else [Online, Offline])"
proof -
  let ?m = "i_machine_id i" and ?t = "pg_clock p (Suc (w_clock w))"
  obtain sess w1 where o: "open_session ext (pg_presence_store p) c creds w = (Inr sess, w1)"
    and sess: "sess_machine_id sess = pg_uuid_out p ?m" "sess_connected_at sess = pg_time_out p ?t"
    and w1: "w_faults w1 = []" "w_db w1 = online_tables ?m row ?t (pg_clock p (w_clock w + 2))
      (pg_clock p (w_clock w + 3)) (w_event_seq w) (pg_clock p (w_clock w)) (w_db w)"
    using open_session_works [OF assms(1,2,4-9)] assms(4) by simp
  have v1: "pg_view w1 = (pg_view w)(?m \<mapsto> (True, Some ?t))"
    using w1(2) by (auto simp: pg_view_def online_tables_def Let_def set_machine_def
        add_event_def online_row_def fun_eq_iff)
  have l1: "machine_log (w_db w1) ?m = machine_log (w_db w) ?m
      @ (if m_status row = Online then [] else [Online])"
    by (simp add: w1(2) online_tables_def Let_def)
  define w2 where "w2 = presence_run ext (pg_presence_store p) beats w1"
  have w2: "w_faults w2 = []" "pg_view w2 = pg_view w1" "machine_log (w_db w2) = machine_log (w_db w1)"
    using activity_steps [OF assms(10) w1(1), of ext p] machine_log_events [of "w_db w2" "w_db w1"]
    by (simp_all add: w2_def)
  have "pg_view w2 ?m = Some (True, Some ?t)" using w2(2) v1 by simp
  then obtain row2 where row2: "tb_machines (w_db w2) ?m = Some row2" "m_status row2 = Online"
    "m_last_connected_at row2 = Some ?t"
    by (auto simp: pg_view_def)
  have time: "pg_time_in p (sess_connected_at sess) = ?t" "pg_uuid_in p (sess_machine_id sess) = Some ?m"
    using assms(1) by (simp_all add: sess pg_lawfulD)
  obtain w3 where c: "pg_end_session p c' sess w2 = (None, w3)"
    and w3: "w_db w3 = add_event \<lparr>e_id = w_event_seq w2, e_machine_id = ?m, e_status = Offline,
        e_occurred_at = pg_clock p (w_clock w2)\<rparr>
      (set_machine ?m (offline_row (pg_clock p (Suc (w_clock w2))) (pg_clock p (w_clock w2 + 2)) row2)
        (w_db w2))"
    using pg_end_works [OF assms(3) w2(1) time(2) row2(1,2)] row2(3) time(1) by simp
  have v3: "pg_view w3 = (pg_view w2)(?m \<mapsto> (False, Some ?t))"
    using row2(3) by (auto simp: w3 pg_view_def set_machine_def add_event_def offline_row_def fun_eq_iff)
  have "machine_log (w_db w3) ?m = machine_log (w_db w) ?m
      @ (if m_status row = Online then [Offline] else [Online, Offline])"
    by (simp add: w3 w2(3) l1)
  with o c v1 v3 w2(2) time(1) show ?thesis
    by (intro exI [of _ sess] exI [of _ w1] exI [of _ w3]) (simp add: close_session_def w2_def)
qed

section \<open>Witnesses\<close>

text \<open>A world the stores reach: a machine enrolls and connects.\<close>

lemma connected_reachable:
  "\<exists>w row. db_reachable sample_pg w \<and> tb_machines (w_db w) 0 = Some row \<and> m_status row = Online"
proof -
  have "fresh_ids sample_pg (empty_world [])" "w_faults (empty_world []) = []"
    "pg_new_uuid sample_pg (w_uuids (empty_world [])) = 0"
    by (simp_all add: fresh_ids_def empty_world_def empty_tables_def sample_pg_def)
  with pg_enroll_works [OF sample_pg_lawful _ _ _ demo_input_acceptable demo_storable,
      of background "empty_world []" "[]"]
  obtain m a w1 aid where e: "pg_enroll sample_pg background (stored_of demo_input []) (empty_world []) = (Inr (m, a), w1)"
    "added_enrollment sample_pg (stored_of demo_input []) 0 aid (w_db (empty_world [])) (w_db w1)"
    "w_faults w1 = []"
    by (auto simp: demo_input_normal)
  then obtain row where row: "tb_machines (w_db w1) 0 = Some row"
    by (auto simp: added_enrollment_def)
  obtain r w2 where s: "pg_start_session sample_pg background (bits_text 0) w1 = (r, w2)"
    "\<exists>row. tb_machines (w_db w2) 0 = Some row \<and> m_status row = Online"
    using pg_start_works [OF _ e(3) _ row, of background sample_pg "bits_text 0"]
    by (simp add: online_tables_def Let_def set_machine_def add_event_def)
  have "db_reachable sample_pg w1"
    by (rule reach_step [OF reach_init step_enroll [OF e(1)]])
  then have "db_reachable sample_pg w2"
    by (rule reach_step [OF _ step_start [OF s(1)]])
  with s(2) show ?thesis by blast
qed

theorem reachable_schema_witness:
  "\<exists>w :: world. tb_machines (w_db w) 0 \<noteq> None \<and> schema_ok sample_pg (w_db w)"
proof -
  obtain w row where "db_reachable sample_pg w" "tb_machines (w_db w) 0 = Some row"
    using connected_reachable by blast
  with reachable_schema [OF this(1)] show ?thesis by (intro exI [of _ w]) simp
qed

theorem presence_history_witness:
  "\<exists>(w :: world) row. tb_machines (w_db w) 0 = Some row \<and> m_status row = Online \<and>
     alternates (machine_log (w_db w) 0) \<and> machine_log (w_db w) 0 \<noteq> [] \<and>
     last (machine_log (w_db w) 0) = Online"
proof -
  obtain w row where w: "db_reachable sample_pg w" "tb_machines (w_db w) 0 = Some row" "m_status row = Online"
    using connected_reachable by blast
  with presence_history [OF w(1,2)] have "machine_log (w_db w) 0 \<noteq> []"
    by (metis machine_status.distinct(5))
  with w presence_history [OF w(1,2)] show ?thesis
    by (intro exI [of _ w] exI [of _ row]) simp
qed

theorem session_life_witness:
  "\<exists>sess w1 w3.
    open_session sample_externals (pg_presence_store sample_pg) background demo_credentials demo_world
      = (Inr sess, w1) \<and>
    close_session (pg_presence_store sample_pg) background sess
      (presence_run sample_externals (pg_presence_store sample_pg) [Op_Activity background sess] w1)
      = (None, w3) \<and>
    machine_log (w_db w3) 1 = machine_log (w_db demo_world) 1 @ [Online, Offline]"
proof -
  obtain sess w1 where o: "open_session sample_externals (pg_presence_store sample_pg) background
      demo_credentials demo_world = (Inr sess, w1)"
    by (simp add: open_session_works [OF sample_pg_lawful _ _ demo_presentable])
  have "only_activity [Op_Activity background sess]" by (simp add: only_activity_def)
  then obtain sess' w1' w3 where life: "open_session sample_externals (pg_presence_store sample_pg)
      background demo_credentials demo_world = (Inr sess', w1')"
    "close_session (pg_presence_store sample_pg) background sess'
      (presence_run sample_externals (pg_presence_store sample_pg) [Op_Activity background sess] w1')
      = (None, w3)"
    "machine_log (w_db w3) 1 = machine_log (w_db demo_world) 1 @ [Online, Offline]"
    using session_life [OF sample_pg_lawful _ _ _ demo_presentable, of background background
      demo_world 2 demo_identity demo_machine "[Op_Activity background sess]"]
    by auto
  with o have "sess' = sess" "w1' = w1" by simp_all
  with life show ?thesis by blast
qed

end
