(* ===== verification/Server.thy ===== *)
theory Server
  imports Streams Server_Database
begin

text \<open>
  The server on its database: the stream machine of theory Streams over the PostgreSQL stores.
  The stores satisfy the contract the machine needs (\<open>pg_server\<close>), so its invariant holds of the
  machine rows; and every state it reaches is one the store calls reach, so the invariants of
  theory Server_Database hold too. Then the two halves meet: what an enrollment hands out opens a
  stream.
\<close>

section \<open>The stores satisfy the contract of the streams\<close>

lemma pg_ok_view:
  assumes "pg_ok p w" "w_clock w \<le> w_clock w'"
    and "\<And>m b t. pg_view w' m = Some (b, Some t) \<Longrightarrow> \<exists>b'. pg_view w m = Some (b', Some t)"
  shows "pg_ok p w'"
proof -
  have law: "pg_lawful p" and past: "stamps_past p w" using assms(1) by (simp_all add: pg_ok_def)
  have "pg_clock p (w_clock w) \<le> pg_clock p (w_clock w')" by (rule clock_mono [OF law assms(2)])
  then have "stamps_past p w'"
    unfolding stamps_past_view using assms(3) past [unfolded stamps_past_view]
    by (meson less_le_trans)
  with law show ?thesis by (simp add: pg_ok_def)
qed

lemma pg_view_enrolled:
  assumes "added_enrollment p se mid aid (w_db w) (w_db w')"
  shows "pg_view w mid = None \<and> pg_view w' = (pg_view w)(mid \<mapsto> (False, None))"
  using assms
  by (auto simp: added_enrollment_def pg_view_def new_machine_row_def fun_eq_iff)

lemma pg_view_record:
  assumes "pg_record p c smp w = (r, w')"
  shows "pg_view w' = pg_view w"
  using pg_record_cases [OF assms]
  by (auto simp: pg_view_def fun_eq_iff dest!: upsert_sample_Inr)

interpretation pg_server: stream_contract "pg_presence_store p" pg_view "pg_uuid_in p"
  "pg_time_in p" "pg_ok p" "pg_telemetry_store p" "pg_enrollment_store p" for p
proof (unfold_locales, unfold pg_telemetry_store_simps pg_enrollment_store_simps)
  fix c smp w r w'
  assume rec: "pg_record p c smp w = (r, w')"
  show "pg_view w' = pg_view w" by (rule pg_view_record [OF rec])
  show "pg_ok p w'" if "pg_ok p w"
    by (rule pg_ok_view [OF that]) (use pg_record_cases [OF rec] pg_view_record [OF rec] in auto)
next
  fix c se w r w'
  assume e: "pg_enroll p c se w = (r, w')"
  from pg_enroll_cases [OF e] show v: "pg_view w' = pg_view w \<or>
      (\<exists>k. pg_view w k = None \<and> pg_view w' = (pg_view w)(k \<mapsto> (False, None)))"
    by (auto dest: pg_view_enrolled pg_view_db)
  show "pg_ok p w'" if "pg_ok p w"
    by (rule pg_ok_view [OF that]) (use pg_enroll_cases [OF e] v in \<open>auto split: if_splits\<close>)
qed

section \<open>Every step is made of store calls\<close>

lemma close_session_step:
  "store_step p w (snd (close_session (pg_presence_store p) c sess w))"
proof -
  obtain r w' where "pg_end_session p c sess w = (r, w')" by force
  then show ?thesis
    using store_step.step_end by (fastforce simp: close_session_def split: option.split)
qed

lemma record_activity_step:
  "store_step p w (snd (record_activity (pg_presence_store p) c sess w))"
proof -
  obtain r w' where "pg_touch_session p c sess w = (r, w')" by force
  then show ?thesis
    using store_step.step_touch by (fastforce simp: record_activity_def split: option.split)
qed

lemma record_sample_step:
  "record_sample (pg_telemetry_store p) c smp w = (r, w') \<Longrightarrow> w' = w \<or> store_step p w w'"
  by (auto simp: record_sample_def split: option.splits prod.splits intro: store_step.step_record)

lemma find_identity_step:
  "find_identity ext (pg_presence_store p) c creds w = (r, w') \<Longrightarrow> w' = w \<or> store_step p w w'"
  by (auto simp: find_identity_def split: if_splits sum.splits option.splits prod.splits
      intro: store_step.step_find)

lemma conn_step_store:
  assumes "conn_step ext (pg_presence_store p) (pg_telemetry_store p) reply ev k w = (k', w')"
  shows "w' = w \<or> store_step p w w'"
proof (cases k)
  case (Receiving sess)
  with assms show ?thesis
    by (auto simp: receive_message_def split: sum.splits if_splits option.splits prod.splits
        dest: record_sample_step)
next
  case (Touching c sess)
  with assms record_activity_step [of p w c sess] show ?thesis
    by (auto split: option.splits prod.splits)
next
  case (Closing sess e)
  with assms close_session_step [of p w close_ctx sess] show ?thesis by (auto split: prod.splits)
next
  case (Closing_Eof sess)
  with assms close_session_step [of p w close_ctx sess] show ?thesis
    by (auto split: option.splits prod.splits)
qed (use assms in \<open>auto split: sum.splits option.splits prod.splits
       dest: find_identity_step intro: store_step.step_start\<close>)

text \<open>The server's configurations, from an empty database with any faults ahead.\<close>

definition pg_reachable ::
  "externals \<Rightarrow> pg \<Rightarrow> go_error option \<Rightarrow> fault list \<Rightarrow> (uuid, world) streams_state \<Rightarrow> bool" where
  "pg_reachable ext p reply fs = server_reachable ext (pg_presence_store p) (pg_telemetry_store p)
     (pg_enrollment_store p) reply (pg_uuid_in p) (empty_world fs)"

lemma pg_reachable_db:
  assumes "pg_reachable ext p reply fs x"
  shows "db_reachable p (snd (snd x))"
  using assms unfolding pg_reachable_def
proof induction
  case start
  show ?case by (simp add: reach_init)
next
  case (step x y)
  from step(2) show ?case
  proof cases
    case (stream ev cs n s k' s' D)
    with step(3) conn_step_store [OF stream(3)] show ?thesis by (auto intro: reach_step)
  next
    case (enrollment c se s res s' cs D)
    then have "store_step p s s'" by (auto intro: step_enroll)
    with step(3) enrollment show ?thesis by (auto intro: reach_step)
  qed
qed

section \<open>Identities stay\<close>

lemma store_step_identities:
  assumes "store_step p w w'" "pg_identities w k = Some x"
  shows "pg_identities w' k = Some x"
  using assms(1)
proof cases
  case (step_enroll c se r1)
  then show ?thesis
    using pg_enroll_cases [OF step_enroll] assms(2)
    by (auto dest!: pg_identities_db pg_identities_added)
next
  case (step_find c a r2)
  then show ?thesis using pg_find_frame [OF step_find] assms(2) by (simp add: pg_identities_def)
next
  case (step_start c mid r3)
  have "tb_identities (w_db w') = tb_identities (w_db w)"
    using pg_start_cases [OF step_start] by (auto dest: session_frames)
  with assms(2) show ?thesis by (simp add: pg_identities_def)
next
  case (step_touch c sess r4)
  have "tb_identities (w_db w') = tb_identities (w_db w)"
    using pg_touch_cases [OF step_touch] by (auto simp: frame)
  with assms(2) show ?thesis by (simp add: pg_identities_def)
next
  case (step_end c sess r5)
  have "tb_identities (w_db w') = tb_identities (w_db w)"
    using pg_end_cases [OF step_end] by (auto dest: session_frames split: if_splits)
  with assms(2) show ?thesis by (simp add: pg_identities_def)
next
  case (step_record c smp r6)
  have "tb_identities (w_db w') = tb_identities (w_db w)"
    using pg_record_cases [OF step_record] by (auto dest: upsert_sample_Inr)
  with assms(2) show ?thesis by (simp add: pg_identities_def)
qed

lemma store_steps_identities:
  "(store_step p)\<^sup>*\<^sup>* w w' \<Longrightarrow> pg_identities w k = Some x \<Longrightarrow> pg_identities w' k = Some x"
  by (induction rule: rtranclp_induct) (auto intro: store_step_identities)

lemma store_steps_reachable: "(store_step p)\<^sup>*\<^sup>* w w' \<Longrightarrow> db_reachable p w \<Longrightarrow> db_reachable p w'"
  by (induction rule: rtranclp_induct) (auto intro: reach_step)

section \<open>What an enrollment leaves behind\<close>

definition externals_lawful :: "externals \<Rightarrow> pg \<Rightarrow> bool" where
  \<comment> \<open>\<open>uuid.Validate\<close> accepts the identifiers the database prints\<close>
  "externals_lawful ext p \<longleftrightarrow> (\<forall>u. ext_uuid_valid ext (pg_uuid_out p u))"

lemma grpc_enroll_added:
  assumes "grpc_enroll (enrollment_service (pg_enrollment_store p)) c request (r, w) = (Inr resp, r', w1)"
  obtains se mid aid where
    "added_enrollment p se mid aid (w_db w) (w_db w1)"
    "se_credential_hash se = sha256 (string_bytes (resp_agent_secret resp))"
    "resp_machine_id resp = pg_uuid_out p mid" "resp_agent_id resp = pg_uuid_out p aid"
    "trim_space (resp_agent_secret resp) \<noteq> ''''" "store_step p w w1"
proof -
  obtain a where run: "enroll (pg_enrollment_store p) c (request_input request) (r, w) = (Inr a, r', w1)"
    and resp: "resp = \<lparr>resp_machine_id = ea_machine_id a, resp_agent_id = ea_agent_id a,
      resp_agent_secret = ea_secret a\<rparr>"
    using assms by (auto simp: grpc_enroll_def split: if_splits sum.splits prod.splits)
  show thesis
    using run
  proof (rule enroll_ok)
    fix bs :: "byte list"
    let ?se = "stored_of (normal_input (request_input request)) (sha256 (string_bytes (ea_secret a)))"
    assume secret: "ea_secret a = b64_encode bs" "length (ea_secret a) = 43"
      and "store_enroll (pg_enrollment_store p) c ?se w = (Inr (ea_machine_id a, ea_agent_id a), w1)"
    then have e: "pg_enroll p c ?se w = (Inr (ea_machine_id a, ea_agent_id a), w1)" by simp
    obtain mid aid where add: "added_enrollment p ?se mid aid (w_db w) (w_db w1)"
      "ea_machine_id a = pg_uuid_out p mid" "ea_agent_id a = pg_uuid_out p aid"
      using pg_enroll_cases [OF e] by auto
    have "trim_space (ea_secret a) \<noteq> ''''" using secret by auto
    with add step_enroll [OF e] that show thesis by (simp add: resp stored_of_def)
  qed
qed

lemma grpc_enrolled:
  assumes "pg_lawful p"
    and "grpc_enroll (enrollment_service (pg_enrollment_store p)) c request (r, w) = (Inr resp, r', w1)"
  obtains mid aid where
    "resp_machine_id resp = pg_uuid_out p mid" "resp_agent_id resp = pg_uuid_out p aid"
    "pg_identities w1 aid = Some (mid, sha256 (string_bytes (resp_agent_secret resp)))"
    "trim_space (resp_agent_secret resp) \<noteq> ''''" "store_step p w w1"
proof -
  obtain se mid aid where add: "added_enrollment p se mid aid (w_db w) (w_db w1)"
    "se_credential_hash se = sha256 (string_bytes (resp_agent_secret resp))"
    and "resp_machine_id resp = pg_uuid_out p mid" "resp_agent_id resp = pg_uuid_out p aid"
    "trim_space (resp_agent_secret resp) \<noteq> ''''" "store_step p w w1"
    using grpc_enroll_added [OF assms(2)] .
  with pg_identities_added [OF add(1)] that show thesis by simp
qed

text \<open>An enrollment takes an agent and a machine nobody has.\<close>

lemma added_enrollment_new:
  assumes "added_enrollment p se mid aid (w_db w) (w_db w')" "pg_identities w k = Some (m, h)"
  shows "k \<noteq> aid \<and> m \<noteq> mid"
proof -
  obtain i where "active_identity k (tb_identities (w_db w)) = Some i" "i_machine_id i = m"
    using assms(2) by (auto simp: pg_identities_def)
  then have "i \<in> set (tb_identities (w_db w))" "i_agent_id i = k" "i_revoked_at i = None" "i_machine_id i = m"
    by (auto simp: active_identity_def dest: find_in_set)
  with assms(1) show ?thesis by (auto simp: added_enrollment_def)
qed

lemma identity_row_of:
  assumes "pg_identities w aid = Some (mid, h)"
  obtains i where "active_identity aid (tb_identities (w_db w)) = Some i" "i_machine_id i = mid"
    "i_credential_hash i = h" "i_agent_id i = aid" "i \<in> set (tb_identities (w_db w))"
proof -
  obtain i where i: "active_identity aid (tb_identities (w_db w)) = Some i" "i_machine_id i = mid"
    "i_credential_hash i = h"
    using assms by (auto simp: pg_identities_def)
  with that find_in_set [OF i(1) [unfolded active_identity_def]] show thesis by blast
qed

lemma wrong_secret_refused:
  assumes "pg_lawful p"
    and "grpc_enroll (enrollment_service (pg_enrollment_store p)) c request (r, w) = (Inr resp, r', w1)"
    and "(store_step p)\<^sup>*\<^sup>* w1 w2"
    and "sha256 (string_bytes guess) \<noteq> sha256 (string_bytes (resp_agent_secret resp))"
  shows "\<exists>e w3. open_session ext (pg_presence_store p) c'
      \<lparr>cred_agent_id = resp_agent_id resp, cred_secret = guess\<rparr> w2 = (Inl e, w3) \<and> w_db w3 = w_db w2"
proof -
  obtain mid aid where ids: "resp_agent_id resp = pg_uuid_out p aid"
    and known: "pg_identities w1 aid = Some (mid, sha256 (string_bytes (resp_agent_secret resp)))"
    using grpc_enrolled [OF assms(1,2)] .
  obtain i where i: "active_identity aid (tb_identities (w_db w2)) = Some i"
    "i_credential_hash i = sha256 (string_bytes (resp_agent_secret resp))"
    using identity_row_of [OF store_steps_identities [OF assms(3) known]] .
  let ?find = "pg_find_active_identity p c' (resp_agent_id resp) w2"
  have hash: "id_credential_hash ident \<noteq> sha256 (string_bytes guess)"
    if "?find = (Inr (Some ident), w3)" for ident w3
    using pg_find_result [OF that] i assms(1,4) by (auto simp: ids pg_lawfulD active_identity_def)
  obtain x w3 where f: "?find = (x, w3)" by force
  with hash pg_find_frame [OF f] show ?thesis
    by (cases x) (auto simp: open_session_def Let_def split: option.split)
qed

section \<open>Properties\<close>

text \<open>C9: an enrolled agent can connect. Whatever the stores did after the enrollment, by anybody and
  with any faults, the identifier and the secret of the enrollment response open a session of
  exactly the enrolled machine, as long as the database works when they are presented.\<close>

theorem enrolled_agent_connects:
  assumes "pg_lawful p" "externals_lawful ext p" "db_reachable p w"
    and "grpc_enroll (enrollment_service (pg_enrollment_store p)) c request (r, w) = (Inr resp, r', w1)"
    and "(store_step p)\<^sup>*\<^sup>* w1 w2" "\<not> ctx_done c'" "w_faults w2 = []"
  shows "\<exists>sess w3. open_session ext (pg_presence_store p) c'
      \<lparr>cred_agent_id = resp_agent_id resp, cred_secret = resp_agent_secret resp\<rparr> w2 = (Inr sess, w3) \<and>
    sess_machine_id sess = resp_machine_id resp \<and> sess_agent_id sess = resp_agent_id resp"
proof -
  obtain mid aid where ids: "resp_machine_id resp = pg_uuid_out p mid" "resp_agent_id resp = pg_uuid_out p aid"
    and known: "pg_identities w1 aid = Some (mid, sha256 (string_bytes (resp_agent_secret resp)))"
    and secret: "trim_space (resp_agent_secret resp) \<noteq> ''''" and st: "store_step p w w1"
    using grpc_enrolled [OF assms(1,4)] .
  obtain i where i: "active_identity aid (tb_identities (w_db w2)) = Some i" "i_machine_id i = mid"
    "i_credential_hash i = sha256 (string_bytes (resp_agent_secret resp))" "i_agent_id i = aid"
    "i \<in> set (tb_identities (w_db w2))"
    using identity_row_of [OF store_steps_identities [OF assms(5) known]] .
  have "schema_ok p (w_db w2)"
    using db_reachable_world_ok [OF store_steps_reachable [OF assms(5) reach_step [OF assms(3) st]]]
    by (simp add: world_ok_def)
  then obtain row where "tb_machines (w_db w2) mid = Some row"
    using i(2,5) by (auto simp: schema_ok_def)
  moreover have "presentable ext \<lparr>cred_agent_id = resp_agent_id resp, cred_secret = resp_agent_secret resp\<rparr>"
    using assms(2) secret by (simp add: presentable_def externals_lawful_def ids)
  ultimately show ?thesis
    using open_session_works [OF assms(1,6,7), of ext
        "\<lparr>cred_agent_id = resp_agent_id resp, cred_secret = resp_agent_secret resp\<rparr>" aid i row]
      i ids assms(1)
    by (simp add: pg_lawfulD)
qed

text \<open>C10: nobody connects as an enrolled agent without its secret: at any later time and with any
  faults, whoever presents the agent's identifier is refused and leaves the database unchanged,
  unless the secret presented has the same SHA-256 digest.\<close>

theorem only_the_secret_connects:
  assumes "pg_lawful p"
    and "grpc_enroll (enrollment_service (pg_enrollment_store p)) c request (r, w) = (Inr resp, r', w1)"
    and "(store_step p)\<^sup>*\<^sup>* w1 w2"
  shows "sha256 (string_bytes guess) = sha256 (string_bytes (resp_agent_secret resp)) \<or>
    (\<exists>e w3. open_session ext (pg_presence_store p) c'
      \<lparr>cred_agent_id = resp_agent_id resp, cred_secret = guess\<rparr> w2 = (Inl e, w3) \<and> w_db w3 = w_db w2)"
proof (rule disjCI)
  assume wrong: "\<not> (\<exists>e w3. open_session ext (pg_presence_store p) c'
      \<lparr>cred_agent_id = resp_agent_id resp, cred_secret = guess\<rparr> w2 = (Inl e, w3) \<and> w_db w3 = w_db w2)"
  show "sha256 (string_bytes guess) = sha256 (string_bytes (resp_agent_secret resp))"
  proof (rule ccontr)
    assume "sha256 (string_bytes guess) \<noteq> sha256 (string_bytes (resp_agent_secret resp))"
    from wrong_secret_refused [OF assms this] wrong show False by blast
  qed
qed

text \<open>C2: the presence shown is true. In every state the server reaches, with any number of streams
  interleaved at their store operations, any received messages, any enrollments and any database
  faults: unless a session start or end of the machine has reported an error, the machine is
  \<open>online\<close> exactly when some open stream holds its latest session.\<close>

theorem presence_follows_streams:
  assumes "pg_lawful p" "pg_reachable ext p reply fs (cs, D, w)" "m \<notin> D"
  shows "(\<exists>row. tb_machines (w_db w) m = Some row \<and> m_status row = Online) \<longleftrightarrow>
    (\<exists>n sess row. conn_session (cs n) = Some sess \<and> pg_uuid_in p (sess_machine_id sess) = Some m \<and>
       tb_machines (w_db w) m = Some row \<and>
       m_last_connected_at row = Some (pg_time_in p (sess_connected_at sess)))"
proof -
  have init: "pg_ok p (empty_world fs)" "pg_server.nobody_online (empty_world fs)"
    using assms(1) by (simp_all add: pg_ok_def stamps_past_def pg_server.nobody_online_def pg_view_def
        empty_world_def empty_tables_def)
  show ?thesis
    using pg_server.status_accurate [OF assms(2) [unfolded pg_reachable_def] init assms(3)]
    by (auto simp: pg_view_def pg_server.holds_def)
qed

text \<open>Everything the concurrent server writes keeps the database consistent: in every state it
  reaches, all constraints of the migration hold.\<close>

theorem server_keeps_schema:
  assumes "pg_reachable ext p reply fs (cs, D, w)"
  shows "schema_ok p (w_db w)"
  using db_reachable_world_ok [OF pg_reachable_db [OF assms]] by (simp add: world_ok_def)

lemma pg_reachable_stream:
  assumes "pg_reachable ext p reply fs (cs, D, w)" "cs n = k"
    and "conn_step ext (pg_presence_store p) (pg_telemetry_store p) reply ev k w = (k', w')"
    and "failed_machines (pg_uuid_in p) (pg_presence_store p) k w = {}"
  shows "pg_reachable ext p reply fs (cs(n := k'), D, w')"
proof -
  have "server_step ext (pg_presence_store p) (pg_telemetry_store p) (pg_enrollment_store p) reply
      (pg_uuid_in p) (cs, D, w) (cs(n := k'), D, w')"
    using server_step.stream [where cs = cs and n = n and D = D and key = "pg_uuid_in p",
        OF assms(3) [folded assms(2)]]
    unfolding assms(2,4) Un_empty_right .
  with assms(1) show ?thesis
    unfolding pg_reachable_def by (rule server_reachable.step)
qed

lemma pg_reachable_enroll:
  assumes "pg_reachable ext p reply fs (cs, D, w)" "pg_enroll p c se w = (r, w')"
  shows "pg_reachable ext p reply fs (cs, D, w')"
proof -
  have "store_enroll (pg_enrollment_store p) c se w = (r, w')" using assms(2) by simp
  from assms(1) server_step.enrollment [OF this] show ?thesis
    unfolding pg_reachable_def by (rule server_reachable.step)
qed

text \<open>C11: no two agents share an identity: whatever happens between two successful enrollments, the second
  gets another agent id and another machine id than the first.\<close>

theorem enrollments_distinct:
  assumes "pg_lawful p"
    and "grpc_enroll (enrollment_service (pg_enrollment_store p)) c request (r, w) = (Inr resp, r', w1)"
    and "(store_step p)\<^sup>*\<^sup>* w1 w2"
    and "grpc_enroll (enrollment_service (pg_enrollment_store p)) c2 request2 (r2, w2) = (Inr resp2, r2', w3)"
  shows "resp_agent_id resp2 \<noteq> resp_agent_id resp \<and> resp_machine_id resp2 \<noteq> resp_machine_id resp"
proof -
  obtain mid aid where first: "resp_machine_id resp = pg_uuid_out p mid" "resp_agent_id resp = pg_uuid_out p aid"
    and known: "pg_identities w1 aid = Some (mid, sha256 (string_bytes (resp_agent_secret resp)))"
    using grpc_enrolled [OF assms(1,2)] by blast
  obtain se mid2 aid2 where add: "added_enrollment p se mid2 aid2 (w_db w2) (w_db w3)"
    and second: "resp_machine_id resp2 = pg_uuid_out p mid2" "resp_agent_id resp2 = pg_uuid_out p aid2"
    using grpc_enroll_added [OF assms(4)] by blast
  have "aid \<noteq> aid2 \<and> mid \<noteq> mid2"
    using added_enrollment_new [OF add store_steps_identities [OF assms(3) known]] .
  moreover have "pg_uuid_out p u = pg_uuid_out p v \<longleftrightarrow> u = v" for u v
    using assms(1) by (metis option.inject pg_lawfulD(2))
  ultimately show ?thesis by (auto simp: first second)
qed

section \<open>Witnesses\<close>

definition demo_request :: enroll_request where
  "demo_request = \<lparr>req_hostname = ''host'', req_operating_system = ''linux'', req_os_version = ''6'',
     req_architecture = ''amd64'', req_agent_version = ''1'', req_capabilities = [''cpu'']\<rparr>"

lemma demo_request_input: "request_input (Some demo_request) = demo_input"
  by (simp add: request_input_def demo_request_def demo_input_def getter_defs)

lemma demo_externals: "externals_lawful sample_externals sample_pg"
  by (simp add: externals_lawful_def sample_externals_def text_bits_text)

lemma empty_fresh: "fresh_ids sample_pg (empty_world [])" "w_faults (empty_world []) = []"
  "pg_new_uuid sample_pg (w_uuids (empty_world [])) = 0"
  "pg_new_uuid sample_pg (w_uuids (empty_world []) + 2) = 2"
  by (simp_all add: fresh_ids_def empty_world_def empty_tables_def sample_pg_def)

lemma demo_enrolled:
  "\<exists>resp w1. grpc_enroll (enrollment_service (pg_enrollment_store sample_pg)) background
     (Some demo_request) ([(replicate 32 7, None)], empty_world []) = (Inr resp, [], w1) \<and>
   w_faults w1 = [] \<and> resp_agent_id resp = bits_text 2 \<and>
   resp_agent_secret resp = b64_encode (replicate 32 7)"
proof -
  obtain w1 where "pg_enroll sample_pg background
      (stored_of demo_input (sha256 (string_bytes (b64_encode (replicate 32 7))))) (empty_world [])
      = (Inr (bits_text 0, bits_text 2), w1)" "w_faults w1 = []"
    using pg_enroll_works [OF sample_pg_lawful _ empty_fresh(2,1) demo_input_acceptable demo_storable,
        of background "sha256 (string_bytes (b64_encode (replicate 32 7)))"] empty_fresh(3,4)
    by (auto simp: demo_input_normal)
  then show ?thesis
    by (simp add: grpc_enroll_def demo_request_input enroll_def
        validate_input_ok [OF demo_input_acceptable] demo_input_normal random_credential_bytes Let_def)
qed

text \<open>The next identifiers are new after an enrollment, too.\<close>

lemma fresh_after_enrollment:
  assumes "pg_enroll sample_pg background se (empty_world []) = (res, w1)"
  shows "fresh_ids sample_pg w1"
proof -
  have "w_faults (empty_world []) = []" "w_db (empty_world []) = empty_tables" "w_uuids (empty_world []) = 0"
    by (simp_all add: empty_world_def)
  then show ?thesis
    using assms
    by (auto simp: pg_enroll_def insert_machine_def insert_identity_def draw_uuid_def commit_tx_def
        new_identity_row_def fresh_ids_def Let_def empty_tables_def sample_pg_def split: if_splits)
qed

theorem enrollments_distinct_witness:
  "\<exists>resp w1 resp2 w3.
     grpc_enroll (enrollment_service (pg_enrollment_store sample_pg)) background
       (Some demo_request) ([(replicate 32 7, None)], empty_world []) = (Inr resp, [], w1) \<and>
     grpc_enroll (enrollment_service (pg_enrollment_store sample_pg)) background
       (Some demo_request) ([(replicate 32 8, None)], w1) = (Inr resp2, [], w3) \<and>
     resp_agent_id resp2 \<noteq> resp_agent_id resp"
proof -
  obtain resp w1 where e: "grpc_enroll (enrollment_service (pg_enrollment_store sample_pg)) background
       (Some demo_request) ([(replicate 32 7, None)], empty_world []) = (Inr resp, [], w1)"
    and w1: "w_faults w1 = []"
    using demo_enrolled by blast
  then have "fresh_ids sample_pg w1"
    by (auto simp: grpc_enroll_def enroll_def Let_def split: if_splits sum.splits prod.splits
        intro: fresh_after_enrollment)
  then obtain m a w3 where "pg_enroll sample_pg background
      (stored_of demo_input (sha256 (string_bytes (b64_encode (replicate 32 8))))) w1 = (Inr (m, a), w3)"
    using pg_enroll_works [OF sample_pg_lawful ctx_done_background w1 _ demo_input_acceptable demo_storable,
        of "sha256 (string_bytes (b64_encode (replicate 32 8)))"]
    by (auto simp: demo_input_normal)
  then obtain resp2 where e2: "grpc_enroll (enrollment_service (pg_enrollment_store sample_pg)) background
       (Some demo_request) ([(replicate 32 8, None)], w1) = (Inr resp2, [], w3)"
    by (simp add: grpc_enroll_def demo_request_input enroll_def
        validate_input_ok [OF demo_input_acceptable] demo_input_normal random_credential_bytes Let_def)
  show ?thesis
    using enrollments_distinct [OF sample_pg_lawful e rtranclp.rtrancl_refl e2] e e2 by blast
qed

theorem enrolled_agent_connects_witness:
  "\<exists>resp w1 sess w3.
     grpc_enroll (enrollment_service (pg_enrollment_store sample_pg)) background
       (Some demo_request) ([(replicate 32 7, None)], empty_world []) = (Inr resp, [], w1) \<and>
     open_session sample_externals (pg_presence_store sample_pg) background
       \<lparr>cred_agent_id = resp_agent_id resp, cred_secret = resp_agent_secret resp\<rparr> w1 = (Inr sess, w3) \<and>
     sess_machine_id sess = resp_machine_id resp \<and> sess_agent_id sess = resp_agent_id resp"
proof -
  obtain resp w1 where e: "grpc_enroll (enrollment_service (pg_enrollment_store sample_pg)) background
       (Some demo_request) ([(replicate 32 7, None)], empty_world []) = (Inr resp, [], w1)"
    and w1: "w_faults w1 = []"
    using demo_enrolled by blast
  show ?thesis
    using enrolled_agent_connects [OF sample_pg_lawful demo_externals reach_init e rtranclp.rtrancl_refl
        ctx_done_background w1] e by blast
qed

theorem only_the_secret_connects_witness:
  "\<exists>resp w1.
     grpc_enroll (enrollment_service (pg_enrollment_store sample_pg)) background
       (Some demo_request) ([(replicate 32 7, None)], empty_world []) = (Inr resp, [], w1) \<and>
     (sha256 (string_bytes ''guess'') = sha256 (string_bytes (resp_agent_secret resp)) \<or>
      (\<exists>e w3. open_session sample_externals (pg_presence_store sample_pg) background
        \<lparr>cred_agent_id = resp_agent_id resp, cred_secret = ''guess''\<rparr> w1 = (Inl e, w3) \<and> w_db w3 = w_db w1))"
proof -
  obtain resp w1 where e: "grpc_enroll (enrollment_service (pg_enrollment_store sample_pg)) background
       (Some demo_request) ([(replicate 32 7, None)], empty_world []) = (Inr resp, [], w1)"
    using demo_enrolled by blast
  show ?thesis
    using only_the_secret_connects [OF sample_pg_lawful e rtranclp.rtrancl_refl] e by blast
qed

text \<open>An agent enrolls and its stream authenticates.\<close>

lemma demo_starting:
  "\<exists>se res w1 row ev ident. pg_enroll sample_pg background se (empty_world []) = (res, w1) \<and>
     w_faults w1 = [] \<and> tb_machines (w_db w1) 0 = Some row \<and> m_status row = Unknown \<and>
     id_machine_id ident = bits_text 0 \<and>
     conn_step sample_externals (pg_presence_store sample_pg) (pg_telemetry_store sample_pg) None ev
       Awaiting w1 = (Starting background ident, w1)"
proof -
  let ?h = "sha256 (string_bytes ''secret'')"
  let ?se = "stored_of demo_input ?h"
  obtain w1 where e: "pg_enroll sample_pg background ?se (empty_world [])
      = (Inr (bits_text 0, bits_text 2), w1)" "w_faults w1 = []"
    and add: "added_enrollment sample_pg ?se 0 2 (w_db (empty_world [])) (w_db w1)"
    using pg_enroll_works [OF sample_pg_lawful _ empty_fresh(2,1) demo_input_acceptable demo_storable,
        of background ?h] empty_fresh(3,4)
    by (auto simp: demo_input_normal)
  have "pg_identities w1 2 = Some (0, ?h)"
    using pg_identities_added [OF add] by (simp add: stored_of_def)
  then obtain i where i: "active_identity 2 (tb_identities (w_db w1)) = Some i" "i_machine_id i = 0"
    "i_credential_hash i = ?h" "i_agent_id i = 2" "i \<in> set (tb_identities (w_db w1))"
    by (rule identity_row_of)
  obtain row where row: "tb_machines (w_db w1) 0 = Some row" "m_status row = Unknown"
    using add by (auto simp: added_enrollment_def new_machine_row_def)
  define ident where "ident = \<lparr>id_machine_id = bits_text 0, id_agent_id = bits_text 2,
    id_credential_hash = ?h\<rparr>"
  define ev where "ev = received (Some (Authenticate (Some \<lparr>auth_agent_id = bits_text 2,
    auth_agent_secret = ''secret''\<rparr>)))"
  have "conn_step sample_externals (pg_presence_store sample_pg) (pg_telemetry_store sample_pg) None ev
      Awaiting w1 = (Starting background ident, w1)"
    using demo_presentable i pg_find_works [OF ctx_done_background e(2) sample_uuid(1) i(1)]
    by (simp add: ev_def received_def get_authenticate_def find_identity_def presentable_def
        is_uuid_def demo_credentials_def ident_def)
  moreover have "id_machine_id ident = bits_text 0" by (simp add: ident_def)
  ultimately show ?thesis using e row by blast
qed

text \<open>The server with one stream authenticated, after an enrollment.\<close>

lemma demo_stream:
  "\<exists>cs w sess. pg_reachable sample_externals sample_pg None [] (cs, {}, w) \<and>
     conn_session (cs 0) = Some sess \<and> pg_uuid_in sample_pg (sess_machine_id sess) = Some 0 \<and>
     (\<exists>row. tb_machines (w_db w) 0 = Some row \<and>
        m_last_connected_at row = Some (pg_time_in sample_pg (sess_connected_at sess)))"
proof -
  let ?step = "conn_step sample_externals (pg_presence_store sample_pg) (pg_telemetry_store sample_pg) None"
  obtain se res w1 row ev ident where e: "pg_enroll sample_pg background se (empty_world []) = (res, w1)"
    "w_faults w1 = []" "tb_machines (w_db w1) 0 = Some row"
    and ident: "id_machine_id ident = bits_text 0"
    and s1: "?step ev Awaiting w1 = (Starting background ident, w1)"
    using demo_starting by blast
  obtain w2 sess where s2: "?step ev (Starting background ident) w1 = (Receiving sess, w2)"
    and sess: "sess_machine_id sess = bits_text 0"
      "\<exists>row. tb_machines (w_db w2) 0 = Some row \<and>
        m_last_connected_at row = Some (pg_time_in sample_pg (sess_connected_at sess))"
    and ok: "failed_machines (pg_uuid_in sample_pg) (pg_presence_store sample_pg)
      (Starting background ident) w1 = {}"
    using pg_start_works [OF ctx_done_background e(2) sample_uuid(1) e(3)]
    by (simp add: ident failed_machines_def online_tables_def Let_def set_machine_def
        add_event_def online_row_def)
  let ?reach = "pg_reachable sample_externals sample_pg None []"
  have "?reach (\<lambda>_. Awaiting, {}, empty_world [])"
    unfolding pg_reachable_def by (rule server_reachable.start)
  then have "?reach (\<lambda>_. Awaiting, {}, w1)"
    by (rule pg_reachable_enroll [OF _ e(1)])
  then have "?reach ((\<lambda>_. Awaiting)(0 := Starting background ident), {}, w1)"
    by (rule pg_reachable_stream [OF _ _ s1]) (simp_all add: failed_machines_def)
  then have "?reach ((\<lambda>_. Awaiting)(0 := Starting background ident, 0 := Receiving sess), {}, w2)"
    by (rule pg_reachable_stream [OF _ _ s2 ok]) simp
  with sess show ?thesis
    by (intro exI [of _ "(\<lambda>_. Awaiting)(0 := Starting background ident, 0 := Receiving sess)"] exI [of _ w2] exI [of _ sess]) simp
qed

theorem presence_follows_streams_witness:
  "\<exists>cs w row. pg_reachable sample_externals sample_pg None [] (cs, {}, w) \<and>
     conn_session (cs 0) \<noteq> None \<and> tb_machines (w_db w) 0 = Some row \<and> m_status row = Online"
proof -
  obtain cs w sess where r: "pg_reachable sample_externals sample_pg None [] (cs, {}, w)"
    "conn_session (cs 0) = Some sess" "pg_uuid_in sample_pg (sess_machine_id sess) = Some 0"
    "\<exists>row. tb_machines (w_db w) 0 = Some row \<and>
      m_last_connected_at row = Some (pg_time_in sample_pg (sess_connected_at sess))"
    using demo_stream by blast
  with presence_follows_streams [OF sample_pg_lawful r(1), of 0] show ?thesis by blast
qed

theorem server_keeps_schema_witness:
  "\<exists>cs w. pg_reachable sample_externals sample_pg None [] (cs, {}, w) \<and>
     tb_machines (w_db w) 0 \<noteq> None \<and> schema_ok sample_pg (w_db w)"
proof -
  obtain cs w where "pg_reachable sample_externals sample_pg None [] (cs, {}, w)"
    "tb_machines (w_db w) 0 \<noteq> None"
    using demo_stream by blast
  with server_keeps_schema [OF this(1)] show ?thesis by blast
qed

end
