(* ===== verification/Health.thy ===== *)
theory Health
  imports Prelude
begin

text \<open>
  \<^verbatim>\<open>server/internal/health/handler.go\<close> and \<^verbatim>\<open>server/internal/httpapi/router.go\<close>: the two health
  handlers over the interface \<open>Pinger\<close>, and the routes. The HTTP framework is a parameter: which
  registered route it chooses for a request, and what it answers when there is none.
\<close>

type_synonym 's pinger = "ctx \<Rightarrow> 's \<Rightarrow> go_error option \<times> 's"

record http_response =
  resp_status :: nat
  resp_json :: "(string \<times> string) list"

record 's health_handler =
  health_database :: "'s pinger"
  health_timeout :: nat

type_synonym 's http_handler = "ctx \<Rightarrow> 's \<Rightarrow> http_response \<times> 's"

definition new_health_handler :: "'s pinger \<Rightarrow> nat \<Rightarrow> 's health_handler" where
  "new_health_handler database timeout = \<lparr>health_database = database, health_timeout = timeout\<rparr>"

definition live :: "'s health_handler \<Rightarrow> 's http_handler" where
  "live h c s = (\<lparr>resp_status = 200, resp_json = [(''status'', ''ok'')]\<rparr>, s)"

definition ready :: "'s health_handler \<Rightarrow> 's http_handler" where
  "ready h c s =
     (case health_database h (with_timeout c (health_timeout h)) s of
        (Some e, s) \<Rightarrow> (\<lparr>resp_status = 503, resp_json = [(''status'', ''unavailable'')]\<rparr>, s)
      | (None, s) \<Rightarrow> (\<lparr>resp_status = 200, resp_json = [(''status'', ''ready'')]\<rparr>, s))"

text \<open>A route: method, path and handler.\<close>

type_synonym 's route = "string \<times> string \<times> 's http_handler"

definition new_router :: "'s pinger \<Rightarrow> 's route list" where
  "new_router database =
     (let handler = new_health_handler database 2
      in [(''GET'', ''/health/live'', live handler), (''GET'', ''/health/ready'', ready handler)])"

record 's engine =
  eng_match :: "'s route list \<Rightarrow> string \<Rightarrow> string \<Rightarrow> 's http_handler option"
  eng_no_route :: "string \<Rightarrow> string \<Rightarrow> http_response"

definition http_handle ::
  "'s engine \<Rightarrow> 's route list \<Rightarrow> string \<Rightarrow> string \<Rightarrow> ctx \<Rightarrow> 's \<Rightarrow> http_response \<times> 's" where
  "http_handle eng routes meth path c s =
     (case eng_match eng routes meth path of
        None \<Rightarrow> (eng_no_route eng meth path, s)
      | Some h \<Rightarrow> h c s)"

text \<open>The framework finds a route registered for exactly this method and path, when only one is, and
  calls no handler that is not registered.\<close>

definition engine_lawful :: "'s engine \<Rightarrow> bool" where
  "engine_lawful eng \<longleftrightarrow>
     (\<forall>routes m p h. distinct (map (\<lambda>(m, p, _). (m, p)) routes) \<longrightarrow> (m, p, h) \<in> set routes \<longrightarrow>
        eng_match eng routes m p = Some h) \<and>
     (\<forall>routes m p h. eng_match eng routes m p = Some h \<longrightarrow> h \<in> (snd \<circ> snd) ` set routes)"

lemma with_timeout_at_most: "\<exists>n. ctx_timeout (with_timeout c t) = Some n \<and> n \<le> t"
  by (auto simp: with_timeout_def split: option.split)

section \<open>Properties\<close>

text \<open>C39: the health endpoints. \<^verbatim>\<open>/health/live\<close> answers 200 without touching the database;
  \<^verbatim>\<open>/health/ready\<close> pings it once, under the request's context limited to at most two seconds, and
  answers 200 when the ping succeeds and 503 when it fails.\<close>

theorem health_endpoints:
  assumes "engine_lawful eng"
  shows "http_handle eng (new_router ping) ''GET'' ''/health/live'' c s
      = (\<lparr>resp_status = 200, resp_json = [(''status'', ''ok'')]\<rparr>, s) \<and>
    (\<exists>c' n. ctx_done c' = ctx_done c \<and> ctx_timeout c' = Some n \<and> n \<le> 2 \<and>
       http_handle eng (new_router ping) ''GET'' ''/health/ready'' c s =
         (case ping c' s of
            (None, s') \<Rightarrow> (\<lparr>resp_status = 200, resp_json = [(''status'', ''ready'')]\<rparr>, s')
          | (Some e, s') \<Rightarrow> (\<lparr>resp_status = 503, resp_json = [(''status'', ''unavailable'')]\<rparr>, s')))"
proof -
  let ?h = "new_health_handler ping 2"
  have routes: "distinct (map (\<lambda>(m, p, _). (m, p)) (new_router ping))"
    "(''GET'', ''/health/live'', live ?h) \<in> set (new_router ping)"
    "(''GET'', ''/health/ready'', ready ?h) \<in> set (new_router ping)"
    by (simp_all add: new_router_def Let_def)
  with assms have "eng_match eng (new_router ping) ''GET'' ''/health/live'' = Some (live ?h)"
    "eng_match eng (new_router ping) ''GET'' ''/health/ready'' = Some (ready ?h)"
    unfolding engine_lawful_def by blast+
  moreover obtain n where "ctx_timeout (with_timeout c 2) = Some n" "n \<le> 2"
    using with_timeout_at_most by blast
  ultimately show ?thesis
    by (intro conjI exI [of _ "with_timeout c 2"] exI [of _ n])
       (auto simp: http_handle_def live_def ready_def new_health_handler_def split: prod.split option.split)
qed

text \<open>Nothing but the ping of \<^verbatim>\<open>/health/ready\<close> touches the state behind the routes.\<close>

lemma http_handle_state:
  assumes "engine_lawful eng" "http_handle eng (new_router ping) meth path c s = (resp, s')"
  shows "s' = s \<or> (\<exists>c'. s' = snd (ping c' s))"
proof (cases "eng_match eng (new_router ping) meth path")
  case None
  with assms(2) show ?thesis by (simp add: http_handle_def)
next
  case (Some h)
  with assms(1) have "h \<in> (snd \<circ> snd) ` set (new_router ping)"
    unfolding engine_lawful_def by blast
  then consider "h = live (new_health_handler ping 2)" | "h = ready (new_health_handler ping 2)"
    by (auto simp: new_router_def Let_def)
  then show ?thesis
  proof cases
    case 1
    with assms(2) Some show ?thesis by (simp add: http_handle_def live_def)
  next
    case 2
    then have "s' = snd (ping (with_timeout c 2) s)"
      using assms(2) Some
      by (simp add: http_handle_def ready_def new_health_handler_def split: prod.splits option.splits)
    then show ?thesis by blast
  qed
qed

section \<open>Witness\<close>

fun first_match :: "'s route list \<Rightarrow> string \<Rightarrow> string \<Rightarrow> 's http_handler option" where
  "first_match [] m p = None"
| "first_match ((m', p', h) # rs) m p = (if m' = m \<and> p' = p then Some h else first_match rs m p)"

definition sample_engine :: "'s engine" where
  "sample_engine = \<lparr>eng_match = first_match, eng_no_route = (\<lambda>_ _. \<lparr>resp_status = 404, resp_json = []\<rparr>)\<rparr>"

lemma sample_engine_lawful: "engine_lawful sample_engine"
proof -
  have "first_match rs m p = Some h"
    if "distinct (map (\<lambda>(m, p, _). (m, p)) rs)" "(m, p, h) \<in> set rs" for rs :: "'s route list" and m p h
    using that by (induction rs m p rule: first_match.induct) force+
  moreover have "h \<in> (snd \<circ> snd) ` set rs" if "first_match rs m p = Some h"
    for rs :: "'s route list" and m p h
    using that by (induction rs m p rule: first_match.induct) (auto split: if_splits)
  ultimately show ?thesis unfolding engine_lawful_def sample_engine_def by simp blast
qed


theorem health_endpoints_witness:
  "http_handle sample_engine (new_router (\<lambda>c n. (Some (External ''down''), Suc n)))
       ''GET'' ''/health/live'' background 0
     = (\<lparr>resp_status = 200, resp_json = [(''status'', ''ok'')]\<rparr>, 0) \<and>
   http_handle sample_engine (new_router (\<lambda>c n. (Some (External ''down''), Suc n)))
       ''GET'' ''/health/ready'' background 0
     = (\<lparr>resp_status = 503, resp_json = [(''status'', ''unavailable'')]\<rparr>, 1)"
  using health_endpoints [OF sample_engine_lawful, of "\<lambda>c n. (Some (External ''down''), Suc n)" background 0]
  by auto

end
