(* ===== verification/Lifecycle.thy ===== *)
theory Lifecycle
  imports Prelude
begin

text \<open>
  \<^verbatim>\<open>server/cmd/arxveil-server/application.go\<close>: serving and shutting down. Three goroutines run:
  \<open>serve\<close> itself and one for each server, which reports at most one error on a channel of capacity
  two; a fourth runs \<open>GracefulStop\<close> during the shutdown. \<open>lifecycle_step\<close> is one step of one of
  them or of the environment (the signal; a server's \<open>Serve\<close> call returning; \<open>Shutdown\<close> and
  \<open>GracefulStop\<close> returning; the deadline of the shutdown), in any order.
\<close>

section \<open>The machine\<close>

definition channel_capacity :: nat where
  "channel_capacity = 2"

datatype main_pc =
    Selecting                              \<comment> \<open>the \<open>select\<close> of \<open>serve\<close>\<close>
  | Shutting_Http "go_error option"        \<comment> \<open>in \<open>httpServer.Shutdown\<close>, with \<open>serveErr\<close>\<close>
  | Stopping_Grpc "go_error option"        \<comment> \<open>the \<open>select\<close> of \<open>gracefulStopGRPC\<close>\<close>
  | Forced_Grpc "go_error option"          \<comment> \<open>after \<open>Stop\<close>, waiting for \<open>done\<close>\<close>
  | Returned_Main "go_error option"

datatype server_pc = Serving | Sending go_error | Exited

record lifecycle =
  lc_main :: main_pc
  lc_http :: server_pc
  lc_grpc :: server_pc
  lc_errors :: "go_error list"
  lc_signal :: bool
  lc_stop_called :: bool
  lc_stop_done :: bool
  lc_deadline :: bool

definition initial_lifecycle :: lifecycle where
  "initial_lifecycle = \<lparr>lc_main = Selecting, lc_http = Serving, lc_grpc = Serving, lc_errors = [],
     lc_signal = False, lc_stop_called = False, lc_stop_done = False, lc_deadline = False\<rparr>"

text \<open>\<open>serveHTTP\<close> and \<open>serveGRPC\<close> once their \<open>Serve\<close> call has returned.\<close>

definition serve_http_returned :: "go_error option \<Rightarrow> server_pc" where
  "serve_http_returned r =
     (case r of
        None \<Rightarrow> Exited
      | Some e \<Rightarrow> if errors_is e ErrServerClosed then Exited
                   else Sending (wrap_error ''serve HTTP: '' e))"

definition serve_grpc_returned :: "go_error option \<Rightarrow> server_pc" where
  "serve_grpc_returned r =
     (case r of None \<Rightarrow> Exited | Some e \<Rightarrow> Sending (wrap_error ''serve gRPC: '' e))"

text \<open>\<open>shutdown\<close> after \<open>httpServer.Shutdown\<close> has returned, and the end of \<open>serve\<close>.\<close>

definition http_shutdown_returned :: "go_error option \<Rightarrow> go_error option \<Rightarrow> main_pc" where
  "http_shutdown_returned serve_err r =
     (case r of
        Some e \<Rightarrow> Returned_Main (Some (wrap_error ''shut down HTTP server: '' e))
      | None \<Rightarrow> Stopping_Grpc serve_err)"

definition serve_result :: "go_error option \<Rightarrow> go_error option" where
  "serve_result serve_err =
     (case serve_err of None \<Rightarrow> None | Some e \<Rightarrow> Some (wrap_error ''serve application: '' e))"

text \<open>The context of the shutdown, \<open>shutdownTimeout\<close> of ten seconds after \<open>shutdown\<close> was entered, is
  one for both servers: its deadline can pass in \<open>Shutdown\<close> or in the \<open>select\<close> of
  \<open>gracefulStopGRPC\<close>, whose second case needs it. \<open>lc_deadline\<close> says that it has passed.\<close>

definition shutdown_timeout :: nat where
  "shutdown_timeout = 10"

fun in_shutdown :: "main_pc \<Rightarrow> bool" where
  "in_shutdown (Shutting_Http se) = True"
| "in_shutdown (Stopping_Grpc se) = True"
| "in_shutdown _ = False"

inductive lifecycle_step :: "lifecycle \<Rightarrow> lifecycle \<Rightarrow> bool" where
  signal: "\<not> lc_signal s \<Longrightarrow> lifecycle_step s (s\<lparr>lc_signal := True\<rparr>)"
| http_returns: "lc_http s = Serving \<Longrightarrow>
    lifecycle_step s (s\<lparr>lc_http := serve_http_returned r\<rparr>)"
| grpc_returns: "lc_grpc s = Serving \<Longrightarrow>
    lifecycle_step s (s\<lparr>lc_grpc := serve_grpc_returned r\<rparr>)"
| http_sends: "lc_http s = Sending e \<Longrightarrow> length (lc_errors s) < channel_capacity \<Longrightarrow>
    lifecycle_step s (s\<lparr>lc_http := Exited, lc_errors := lc_errors s @ [e]\<rparr>)"
| grpc_sends: "lc_grpc s = Sending e \<Longrightarrow> length (lc_errors s) < channel_capacity \<Longrightarrow>
    lifecycle_step s (s\<lparr>lc_grpc := Exited, lc_errors := lc_errors s @ [e]\<rparr>)"
| select_signal: "lc_main s = Selecting \<Longrightarrow> lc_signal s \<Longrightarrow>
    lifecycle_step s (s\<lparr>lc_main := Shutting_Http None\<rparr>)"
| select_error: "lc_main s = Selecting \<Longrightarrow> lc_errors s = e # es \<Longrightarrow>
    lifecycle_step s (s\<lparr>lc_main := Shutting_Http (Some e), lc_errors := es\<rparr>)"
| shutdown_error: "lc_main s = Shutting_Http se \<Longrightarrow>
    lifecycle_step s (s\<lparr>lc_main := http_shutdown_returned se (Some e)\<rparr>)"
| shutdown_ok: "lc_main s = Shutting_Http se \<Longrightarrow>
    lifecycle_step s (s\<lparr>lc_main := http_shutdown_returned se None, lc_stop_called := True\<rparr>)"
| stop_returns: "lc_stop_called s \<Longrightarrow> \<not> lc_stop_done s \<Longrightarrow>
    lifecycle_step s (s\<lparr>lc_stop_done := True\<rparr>)"
| stopped: "lc_main s = Stopping_Grpc se \<Longrightarrow> lc_stop_done s \<Longrightarrow>
    lifecycle_step s (s\<lparr>lc_main := Returned_Main (serve_result se)\<rparr>)"
| deadline: "in_shutdown (lc_main s) \<Longrightarrow> \<not> lc_deadline s \<Longrightarrow>
    lifecycle_step s (s\<lparr>lc_deadline := True\<rparr>)"
| stop_timeout: "lc_main s = Stopping_Grpc se \<Longrightarrow> lc_deadline s \<Longrightarrow>
    lifecycle_step s (s\<lparr>lc_main := Forced_Grpc se\<rparr>)"
| forced: "lc_main s = Forced_Grpc se \<Longrightarrow> lc_stop_done s \<Longrightarrow>
    lifecycle_step s (s\<lparr>lc_main := Returned_Main (serve_result se)\<rparr>)"

abbreviation lifecycle_reachable :: "lifecycle \<Rightarrow> bool" where
  "lifecycle_reachable \<equiv> lifecycle_step\<^sup>*\<^sup>* initial_lifecycle"

section \<open>The invariant\<close>

definition serving_error :: "go_error \<Rightarrow> bool" where
  "serving_error e \<longleftrightarrow>
     (\<exists>e'. e = wrap_error ''serve HTTP: '' e' \<and> \<not> errors_is e' ErrServerClosed \<or>
           e = wrap_error ''serve gRPC: '' e')"

text \<open>Why main stopped selecting: the signal, or the serving error it keeps.\<close>

definition cause_ok :: "bool \<Rightarrow> go_error option \<Rightarrow> bool" where
  "cause_ok sig se \<longleftrightarrow> (case se of None \<Rightarrow> sig | Some e \<Rightarrow> serving_error e)"

definition result_ok :: "bool \<Rightarrow> go_error option \<Rightarrow> bool" where
  "result_ok sig r \<longleftrightarrow> (\<exists>se. r = serve_result se \<and> cause_ok sig se)"

fun main_ok :: "bool \<Rightarrow> bool \<Rightarrow> bool \<Rightarrow> main_pc \<Rightarrow> bool" where
  "main_ok sig called stopped Selecting \<longleftrightarrow> \<not> called \<and> \<not> stopped"
| "main_ok sig called stopped (Shutting_Http se) \<longleftrightarrow> \<not> called \<and> \<not> stopped \<and> cause_ok sig se"
| "main_ok sig called stopped (Stopping_Grpc se) \<longleftrightarrow> called \<and> cause_ok sig se"
| "main_ok sig called stopped (Forced_Grpc se) \<longleftrightarrow> called \<and> cause_ok sig se"
| "main_ok sig called stopped (Returned_Main r) \<longleftrightarrow>
     (\<exists>e. r = Some (wrap_error ''shut down HTTP server: '' e)) \<and> \<not> called \<and> \<not> stopped \<or>
     called \<and> stopped \<and> result_ok sig r"

fun server_ok :: "server_pc \<Rightarrow> bool" where
  "server_ok (Sending e) = serving_error e"
| "server_ok _ = True"

fun sent :: "server_pc \<Rightarrow> nat" where
  "sent Exited = 1"
| "sent _ = 0"

definition lifecycle_ok :: "lifecycle \<Rightarrow> bool" where
  "lifecycle_ok s \<longleftrightarrow>
     length (lc_errors s) \<le> sent (lc_http s) + sent (lc_grpc s) \<and>
     list_all serving_error (lc_errors s) \<and> server_ok (lc_http s) \<and> server_ok (lc_grpc s) \<and>
     main_ok (lc_signal s) (lc_stop_called s) (lc_stop_done s) (lc_main s)"

lemma cause_ok_signal: "cause_ok sig se \<Longrightarrow> cause_ok True se"
  by (simp add: cause_ok_def split: option.splits)

lemma result_ok_signal: "result_ok sig r \<Longrightarrow> result_ok True r"
  unfolding result_ok_def using cause_ok_signal by blast

lemma result_ok_serve: "cause_ok sig se \<Longrightarrow> result_ok sig (serve_result se)"
  unfolding result_ok_def by blast

lemma main_ok_signal: "main_ok sig called stopped k \<Longrightarrow> main_ok True called stopped k"
  using cause_ok_signal result_ok_signal by (cases k) auto

lemma main_ok_stop: "main_ok sig True False k \<Longrightarrow> main_ok sig True True k"
  by (cases k) simp_all

lemma server_ok_http: "server_ok (serve_http_returned r)"
  by (auto simp: serve_http_returned_def serving_error_def split: option.split)

lemma server_ok_grpc: "server_ok (serve_grpc_returned r)"
  by (auto simp: serve_grpc_returned_def serving_error_def split: option.split)

lemma lifecycle_ok_initial: "lifecycle_ok initial_lifecycle"
  by (simp add: lifecycle_ok_def initial_lifecycle_def)

lemma lifecycle_step_ok: "lifecycle_step s s' \<Longrightarrow> lifecycle_ok s \<Longrightarrow> lifecycle_ok s'"
proof (induction rule: lifecycle_step.induct)
  case (signal s)
  then show ?case by (auto simp: lifecycle_ok_def intro: main_ok_signal)
next
  case (stop_returns s)
  then show ?case by (auto simp: lifecycle_ok_def intro: main_ok_stop)
next
  case (select_signal s)
  then show ?case by (simp add: lifecycle_ok_def cause_ok_def)
next
  case (select_error s e es)
  then show ?case by (simp add: lifecycle_ok_def cause_ok_def)
qed (auto simp: lifecycle_ok_def server_ok_http server_ok_grpc http_shutdown_returned_def result_ok_serve)

lemma lifecycle_reachable_ok: "lifecycle_reachable s \<Longrightarrow> lifecycle_ok s"
  by (induction rule: rtranclp_induct) (auto intro: lifecycle_ok_initial lifecycle_step_ok)

section \<open>Every run ends\<close>

fun main_rank :: "main_pc \<Rightarrow> nat" where
  "main_rank Selecting = 4"
| "main_rank (Shutting_Http se) = 3"
| "main_rank (Stopping_Grpc se) = 2"
| "main_rank (Forced_Grpc se) = 1"
| "main_rank (Returned_Main r) = 0"

fun server_rank :: "server_pc \<Rightarrow> nat" where
  "server_rank Serving = 2"
| "server_rank (Sending e) = 1"
| "server_rank Exited = 0"

definition steps_left :: "lifecycle \<Rightarrow> nat" where
  "steps_left s = main_rank (lc_main s) + server_rank (lc_http s) + server_rank (lc_grpc s) +
     (if lc_signal s then 0 else 1) + (if lc_stop_done s then 0 else 1) +
     (if lc_deadline s then 0 else 1)"

lemma server_rank_returned: "server_rank (serve_http_returned r) < 2" "server_rank (serve_grpc_returned r) < 2"
  by (auto simp: serve_http_returned_def serve_grpc_returned_def split: option.split)

lemma main_rank_shutdown: "main_rank (http_shutdown_returned se r) < 3"
  by (auto simp: http_shutdown_returned_def split: option.split)

lemma lifecycle_step_decreases: "lifecycle_step s s' \<Longrightarrow> steps_left s' < steps_left s"
  by (induction rule: lifecycle_step.induct)
     (auto simp: steps_left_def server_rank_returned main_rank_shutdown)

lemma lifecycle_run_bounded: "(lifecycle_step ^^ n) s s' \<Longrightarrow> n + steps_left s' \<le> steps_left s"
proof (induction n arbitrary: s')
  case (Suc n)
  then obtain t where "(lifecycle_step ^^ n) s t" "lifecycle_step t s'" by auto
  with Suc.IH [of t] lifecycle_step_decreases [of t s'] show ?case by simp
qed simp

text \<open>Something can happen as long as \<open>serve\<close> has not returned.\<close>

lemma lifecycle_progress:
  assumes "lifecycle_ok s" "\<And>r. lc_main s \<noteq> Returned_Main r"
  shows "\<exists>s'. lifecycle_step s s'"
proof (cases "lc_main s")
  case Selecting
  then show ?thesis using lifecycle_step.signal lifecycle_step.select_signal by blast
next
  case (Shutting_Http se)
  then show ?thesis using lifecycle_step.shutdown_ok by blast
next
  case (Stopping_Grpc se)
  then have "in_shutdown (lc_main s)" by simp
  with Stopping_Grpc show ?thesis using lifecycle_step.deadline lifecycle_step.stop_timeout by blast
next
  case (Forced_Grpc se)
  moreover from this assms(1) have "lc_stop_called s" by (simp add: lifecycle_ok_def)
  ultimately show ?thesis using lifecycle_step.stop_returns lifecycle_step.forced by blast
next
  case (Returned_Main r)
  with assms(2) show ?thesis by blast
qed

section \<open>Properties\<close>

text \<open>C31: a serving goroutine is never stuck on the error channel: in every reachable state the
  channel has room for the report of any goroutine that is about to send one, also when \<open>serve\<close> has
  stopped receiving.\<close>

theorem error_channel_has_room:
  assumes "lifecycle_reachable s"
  shows "length (lc_errors s) \<le> channel_capacity \<and>
    (lc_http s = Sending e \<or> lc_grpc s = Sending e \<longrightarrow> length (lc_errors s) < channel_capacity)"
proof -
  have "length (lc_errors s) \<le> sent (lc_http s) + sent (lc_grpc s)"
    using lifecycle_reachable_ok [OF assms] by (simp add: lifecycle_ok_def)
  then show ?thesis
    by (cases "lc_http s"; cases "lc_grpc s") (auto simp: channel_capacity_def)
qed

text \<open>C32: what \<open>serve\<close> returns. Either shutting down the HTTP server failed, then that error is returned
  and \<open>GracefulStop\<close> was not called; or the gRPC server has been stopped, and the result is \<open>nil\<close>, which
  takes a signal, or the error of a server that failed, never \<open>ErrServerClosed\<close> of the HTTP server.\<close>

theorem serve_outcome:
  assumes "lifecycle_reachable s" "lc_main s = Returned_Main r"
  shows "(\<exists>e. r = Some (wrap_error ''shut down HTTP server: '' e)) \<and> \<not> lc_stop_called s \<or>
    lc_stop_called s \<and> lc_stop_done s \<and>
      (r = None \<and> lc_signal s \<or>
       (\<exists>e. r = Some (wrap_error ''serve application: '' e) \<and> serving_error e))"
  using lifecycle_reachable_ok [OF assms(1)] assms(2)
  by (auto simp: lifecycle_ok_def result_ok_def serve_result_def cause_ok_def split: option.splits)

text \<open>C30: \<open>serve\<close> comes to an end. From the start at most eleven steps happen, in whatever order the signal,
  the two servers, the shutdown calls and the deadline take them, and when nothing more can happen
  \<open>serve\<close> has returned: neither the channel nor the wait for \<open>GracefulStop\<close> holds it for ever.\<close>

theorem serve_terminates:
  assumes "(lifecycle_step ^^ n) initial_lifecycle s"
  shows "n \<le> 11 \<and> ((\<forall>s'. \<not> lifecycle_step s s') \<longrightarrow> (\<exists>r. lc_main s = Returned_Main r))"
proof -
  have "steps_left initial_lifecycle = 11" by (simp add: steps_left_def initial_lifecycle_def)
  with lifecycle_run_bounded [OF assms] have "n \<le> 11" by simp
  moreover have "lifecycle_ok s" using assms relpowp_imp_rtranclp lifecycle_reachable_ok by metis
  ultimately show ?thesis using lifecycle_progress by blast
qed

text \<open>When shutting down the HTTP server fails, \<open>serve\<close> returns while the gRPC server is still
  serving: nothing has asked it to stop.\<close>

theorem failed_shutdown_leaves_grpc:
  "\<exists>s. lifecycle_reachable s \<and> lc_signal s \<and> lc_grpc s = Serving \<and> \<not> lc_stop_called s \<and>
     lc_main s = Returned_Main (Some (wrap_error ''shut down HTTP server: '' e))"
proof -
  let ?s = "initial_lifecycle\<lparr>lc_signal := True\<rparr>"
  have "lifecycle_step initial_lifecycle ?s"
    by (rule lifecycle_step.signal) (simp add: initial_lifecycle_def)
  moreover have "lifecycle_step ?s (?s\<lparr>lc_main := Shutting_Http None\<rparr>)"
    by (rule lifecycle_step.select_signal) (simp_all add: initial_lifecycle_def)
  moreover have "lifecycle_step (?s\<lparr>lc_main := Shutting_Http None\<rparr>)
      (?s\<lparr>lc_main := http_shutdown_returned None (Some e)\<rparr>)"
    using lifecycle_step.shutdown_error [of "?s\<lparr>lc_main := Shutting_Http None\<rparr>"] by simp
  ultimately have "lifecycle_reachable (?s\<lparr>lc_main := http_shutdown_returned None (Some e)\<rparr>)"
    by (meson rtranclp.rtrancl_into_rtrancl rtranclp.rtrancl_refl)
  then show ?thesis
    by (intro exI [of _ "?s\<lparr>lc_main := http_shutdown_returned None (Some e)\<rparr>"])
       (simp add: initial_lifecycle_def http_shutdown_returned_def)
qed

section \<open>Witnesses\<close>

text \<open>A run in which the HTTP server cannot listen: its error is reported, \<open>serve\<close> shuts down, the
  timeout passes and \<open>GracefulStop\<close> returns after \<open>Stop\<close>.\<close>

definition listen_failure :: go_error where
  "listen_failure = wrap_error ''serve HTTP: '' (External ''address already in use'')"

definition failed_start :: lifecycle where
  "failed_start = initial_lifecycle\<lparr>lc_http := Sending listen_failure\<rparr>"

definition failed_shutdown :: lifecycle where
  "failed_shutdown = initial_lifecycle\<lparr>lc_http := Exited,
     lc_main := Shutting_Http (Some listen_failure)\<rparr>"

definition failed_end :: lifecycle where
  "failed_end = initial_lifecycle\<lparr>lc_http := Exited, lc_stop_called := True, lc_stop_done := True,
     lc_deadline := True, lc_main := Returned_Main (Some (wrap_error ''serve application: '' listen_failure))\<rparr>"

lemma failed_start_step: "lifecycle_step initial_lifecycle failed_start"
  using lifecycle_step.http_returns [of initial_lifecycle "Some (External ''address already in use'')"]
  by (simp add: initial_lifecycle_def failed_start_def serve_http_returned_def listen_failure_def)

lemma failed_end_reachable: "lifecycle_reachable failed_end"
proof -
  note [simp] = initial_lifecycle_def failed_start_def failed_shutdown_def failed_end_def
    channel_capacity_def http_shutdown_returned_def serve_result_def
  let ?sent = "failed_start\<lparr>lc_http := Exited, lc_errors := [listen_failure]\<rparr>"
  let ?stopping = "failed_shutdown\<lparr>lc_main := Stopping_Grpc (Some listen_failure), lc_stop_called := True\<rparr>"
  let ?late = "?stopping\<lparr>lc_deadline := True\<rparr>"
  let ?forced = "?late\<lparr>lc_main := Forced_Grpc (Some listen_failure)\<rparr>"
  have "lifecycle_step failed_start ?sent"
    using lifecycle_step.http_sends [of failed_start listen_failure] by simp
  moreover have "lifecycle_step ?sent failed_shutdown"
    using lifecycle_step.select_error [of ?sent listen_failure "[]"] by simp
  moreover have "lifecycle_step failed_shutdown ?stopping"
    using lifecycle_step.shutdown_ok [of failed_shutdown "Some listen_failure"] by simp
  moreover have "lifecycle_step ?stopping ?late" using lifecycle_step.deadline [of ?stopping] by simp
  moreover have "lifecycle_step ?late ?forced"
    using lifecycle_step.stop_timeout [of ?late "Some listen_failure"] by simp
  moreover have "lifecycle_step ?forced (?forced\<lparr>lc_stop_done := True\<rparr>)"
    using lifecycle_step.stop_returns [of ?forced] by simp
  moreover have "lifecycle_step (?forced\<lparr>lc_stop_done := True\<rparr>) failed_end"
    using lifecycle_step.forced [of "?forced\<lparr>lc_stop_done := True\<rparr>" "Some listen_failure"] by simp
  ultimately show ?thesis
    using failed_start_step by (meson rtranclp.rtrancl_into_rtrancl rtranclp.rtrancl_refl)
qed

theorem error_channel_has_room_witness:
  "lc_http failed_start = Sending listen_failure \<and> length (lc_errors failed_start) < channel_capacity"
  using error_channel_has_room [of failed_start listen_failure] failed_start_step
  by (auto simp: failed_start_def)

theorem serve_outcome_witness:
  "\<exists>r e. lc_main failed_end = Returned_Main r \<and>
     r = Some (wrap_error ''serve application: '' e) \<and> serving_error e"
  using serve_outcome [OF failed_end_reachable, of "Some (wrap_error ''serve application: '' listen_failure)"]
  by (auto simp: failed_end_def initial_lifecycle_def wrap_error_def)

theorem serve_terminates_witness:
  "\<exists>n. (lifecycle_step ^^ n) initial_lifecycle failed_end \<and> 0 < n \<and> n \<le> 11"
proof -
  obtain n where n: "(lifecycle_step ^^ n) initial_lifecycle failed_end"
    using failed_end_reachable rtranclp_imp_relpowp by metis
  then have "n \<noteq> 0" by (cases n) (auto simp: failed_end_def initial_lifecycle_def)
  with n serve_terminates [OF n] show ?thesis by blast
qed

end
