(* ===== verification/Application.thy ===== *)
theory Application
  imports Server Config Health Lifecycle
begin

text \<open>
  \<^verbatim>\<open>newApplication\<close> of \<^verbatim>\<open>server/cmd/arxveil-server/application.go\<close>, which wires the
  components, and \<^verbatim>\<open>main.go\<close>, which opens the database pool, runs the application and closes the
  pool. The pool is the database of theory Database with its \<open>Ping\<close>; parsing a database URL,
  connecting and listening are parameters.
\<close>

section \<open>Wiring\<close>

record pool =
  pool_pg :: pg
  pool_ping :: "world pinger"

record 's http_server =
  http_addr :: string
  http_handler :: "'s route list"
  http_read_header_timeout :: nat

record 'l application =
  app_http_server :: "world http_server"
  app_grpc_server :: "(reader \<times> world, world) grpc_server"
  app_grpc_listener :: 'l
  app_http_address :: string
  app_grpc_address :: string

definition new_application ::
  "(string \<Rightarrow> string \<Rightarrow> go_error + 'l) \<Rightarrow> externals \<Rightarrow> config \<Rightarrow> pool \<Rightarrow> go_error + 'l application" where
  "new_application listen ext cfg database =
     (let p = pool_pg database;
          enrollments = enrollment_service (pg_enrollment_store p);
          presences = presence_service ext (pg_presence_store p);
          telemetries = telemetry_service (pg_telemetry_store p)
      in case listen ''tcp'' (cfg_grpc_address cfg) of
           Inl e \<Rightarrow> Inl (wrap_error ''listen for gRPC: '' e)
         | Inr listener \<Rightarrow>
             Inr \<lparr>app_http_server =
                    \<lparr>http_addr = cfg_server_address cfg, http_handler = new_router (pool_ping database),
                     http_read_header_timeout = 5\<rparr>,
                  app_grpc_server = new_server enrollments presences telemetries,
                  app_grpc_listener = listener, app_http_address = cfg_server_address cfg,
                  app_grpc_address = cfg_grpc_address cfg\<rparr>)"

section \<open>The program\<close>

text \<open>What happens to the pool, in order.\<close>

datatype 'l server_event = Pool_Opened string | Serve "'l application" | Pool_Closed

record ('c, 'l) host =
  host_parse :: "string \<Rightarrow> go_error + 'c"
  host_connect :: "'c \<Rightarrow> go_error + pool"
  host_listen :: "string \<Rightarrow> string \<Rightarrow> go_error + 'l"

definition open_database_pool :: "('c, 'l) host \<Rightarrow> string \<Rightarrow> go_error + pool" where
  "open_database_pool host url =
     (case host_parse host url of
        Inl e \<Rightarrow> Inl (wrap_error ''parse database configuration: '' e)
      | Inr pool_config \<Rightarrow>
     (case host_connect host pool_config of
        Inl e \<Rightarrow> Inl (wrap_error ''create database pool: '' e)
      | Inr pool \<Rightarrow> Inr pool))"

text \<open>\<open>run\<close>; \<open>result\<close> is what \<open>serve\<close> returns. The last event is the deferred \<open>pool.Close\<close>.\<close>

definition run_server ::
  "('c, 'l) host \<Rightarrow> externals \<Rightarrow> ('l application \<Rightarrow> go_error option) \<Rightarrow> config
     \<Rightarrow> go_error option \<times> 'l server_event list" where
  "run_server host ext result cfg =
     (case open_database_pool host (cfg_database_url cfg) of
        Inl e \<Rightarrow> (Some e, [])
      | Inr pool \<Rightarrow>
          let opened = [Pool_Opened (cfg_database_url cfg)];
              (r, events) =
                (case new_application (host_listen host) ext cfg pool of
                   Inl e \<Rightarrow> (Some e, [])
                 | Inr application \<Rightarrow> (result application, [Serve application]))
          in (r, opened @ events @ [Pool_Closed]))"

text \<open>\<open>main\<close>: the exit status.\<close>

definition server_main ::
  "('c, 'l) host \<Rightarrow> externals \<Rightarrow> ('l application \<Rightarrow> go_error option) \<Rightarrow> (string \<rightharpoonup> string)
     \<Rightarrow> nat \<times> 'l server_event list" where
  "server_main host ext result env =
     (case run_server host ext result (load_config env) of
        (Some e, events) \<Rightarrow> (1, events)
      | (None, events) \<Rightarrow> (0, events))"

text \<open>\<open>serve\<close> runs the machine of theory Lifecycle: \<open>final app\<close> is the state in which the run of the
  application ends, and the result is the one its main goroutine returns there.\<close>

definition serves :: "('l application \<Rightarrow> lifecycle) \<Rightarrow> ('l application \<Rightarrow> go_error option) \<Rightarrow> bool" where
  "serves final result \<longleftrightarrow>
     (\<forall>app. lifecycle_reachable (final app) \<and> lc_main (final app) = Returned_Main (result app))"

section \<open>Requests on the wired application\<close>

text \<open>One request served to its end: an HTTP request, an enrollment, an agent's stream. The services
  share the pool, the enrollments also the random source.\<close>

inductive served :: "world engine \<Rightarrow> externals \<Rightarrow> 'l application
    \<Rightarrow> reader \<times> world \<Rightarrow> reader \<times> world \<Rightarrow> bool" for eng ext app where
  served_http: "http_handle eng (http_handler (app_http_server app)) meth path c w = (resp, w') \<Longrightarrow>
    served eng ext app (r, w) (r, w')"
| served_enroll: "grpc_enroll (srv_enroller (app_grpc_server app)) c request (r, w) = (res, r', w') \<Longrightarrow>
    served eng ext app (r, w) (r', w')"
| served_stream: "stream_updates ext (srv_tracker (app_grpc_server app))
      (srv_recorder (app_grpc_server app)) reply evs w = (result, w') \<Longrightarrow>
    served eng ext app (r, w) (r, w')"

section \<open>The wiring is the server of theory Server\<close>

lemma new_application_wiring:
  assumes "new_application listen ext cfg pool = Inr app"
  shows "http_handler (app_http_server app) = new_router (pool_ping pool)"
    "srv_enroller (app_grpc_server app) = enrollment_service (pg_enrollment_store (pool_pg pool))"
    "srv_tracker (app_grpc_server app) = presence_service ext (pg_presence_store (pool_pg pool))"
    "srv_recorder (app_grpc_server app) = telemetry_service (pg_telemetry_store (pool_pg pool))"
  using assms by (auto simp: new_application_def new_server_def Let_def split: sum.splits)

lemma new_application_addresses:
  assumes "new_application listen ext cfg pool = Inr app"
  shows "http_addr (app_http_server app) = cfg_server_address cfg"
    "listen ''tcp'' (cfg_grpc_address cfg) = Inr (app_grpc_listener app)"
    "app_http_address app = cfg_server_address cfg" "app_grpc_address app = cfg_grpc_address cfg"
  using assms by (auto simp: new_application_def Let_def split: sum.splits)

lemma conn_run_store:
  assumes "conn_run ext (pg_presence_store p) (pg_telemetry_store p) reply (evs, k, w) (evs', k', w')"
  shows "(store_step p)\<^sup>*\<^sup>* w w'"
proof -
  have "(store_step p)\<^sup>*\<^sup>* (snd (snd x)) (snd (snd y))"
    if "conn_run ext (pg_presence_store p) (pg_telemetry_store p) reply x y" for x y
    using that
  proof induction
    case (step y z)
    from step(2) have "snd (snd z) = snd (snd y) \<or> store_step p (snd (snd y)) (snd (snd z))"
      by cases (auto dest: conn_step_store)
    with step(3) show ?case by (auto intro: rtranclp.rtrancl_into_rtrancl)
  qed simp
  from this [OF assms] show ?thesis by simp
qed

lemma stream_updates_store:
  "stream_updates ext (presence_service ext (pg_presence_store p)) (telemetry_service (pg_telemetry_store p))
     reply evs w = (result, w') \<Longrightarrow> (store_step p)\<^sup>*\<^sup>* w w'"
  using stream_updates_run [of ext "pg_presence_store p" "pg_telemetry_store p" reply evs w]
  by (auto dest: conn_run_store)

lemma grpc_enroll_store:
  assumes "grpc_enroll (enrollment_service (pg_enrollment_store p)) c request (r, w) = (res, r', w')"
  shows "(store_step p)\<^sup>*\<^sup>* w w'"
proof -
  have "w' = w \<or> (\<exists>c se x. pg_enroll p c se w = (x, w'))"
    using assms
    by (auto simp: grpc_enroll_def enroll_def Let_def split: if_splits sum.splits prod.splits)
  then show ?thesis by (auto intro: step_enroll)
qed

lemma store_steps_world_ok: "(store_step p)\<^sup>*\<^sup>* w w' \<Longrightarrow> world_ok p w \<Longrightarrow> world_ok p w'"
  by (induction rule: rtranclp_induct) (auto intro: store_step_world_ok)

text \<open>A ping sends an empty statement: it may meet a fault and changes no table.\<close>

definition ping_lawful :: "world pinger \<Rightarrow> bool" where
  "ping_lawful ping \<longleftrightarrow> (\<forall>c w. \<exists>fs. snd (ping c w) = w\<lparr>w_faults := fs\<rparr>)"

lemma ping_world_ok:
  assumes "ping_lawful ping" "world_ok p w"
  shows "world_ok p (snd (ping c w))"
proof -
  obtain fs where "snd (ping c w) = w\<lparr>w_faults := fs\<rparr>"
    using assms(1) unfolding ping_lawful_def by blast
  with assms(2) show ?thesis by (simp add: world_ok_same)
qed

lemma served_world_ok:
  assumes "served eng ext app x y" "engine_lawful eng" "ping_lawful (pool_ping pool)"
    and "new_application listen ext cfg pool = Inr app" "world_ok (pool_pg pool) (snd x)"
  shows "world_ok (pool_pg pool) (snd y)"
  using assms(1)
proof cases
  case (served_http meth path c w resp w' r)
  then show ?thesis
    using http_handle_state [OF assms(2), of "pool_ping pool" meth path c w resp w']
      ping_world_ok [OF assms(3)] assms(5)
    by (auto simp: new_application_wiring [OF assms(4)])
next
  case (served_enroll c request r w res r' w')
  then show ?thesis
    using store_steps_world_ok [OF grpc_enroll_store] assms(5)
    by (auto simp: new_application_wiring [OF assms(4)])
next
  case (served_stream reply evs w result w' r)
  then show ?thesis
    using store_steps_world_ok [OF stream_updates_store] assms(5)
    by (auto simp: new_application_wiring [OF assms(4)])
qed

lemma served_many_world_ok:
  assumes "(served eng ext app)\<^sup>*\<^sup>* x y" "engine_lawful eng" "ping_lawful (pool_ping pool)"
    and "new_application listen ext cfg pool = Inr app" "world_ok (pool_pg pool) (snd x)"
  shows "world_ok (pool_pg pool) (snd y)"
  using assms(1,5) by (induction rule: rtranclp_induct) (auto intro: served_world_ok [OF _ assms(2-4)])

section \<open>Properties\<close>

text \<open>C29: an application that \<open>newApplication\<close> has wired keeps the database consistent: whatever HTTP
  requests, enrollments and agent streams it serves on the migrated empty database, in any number and
  order and with any database faults, every constraint of the migration holds afterwards.\<close>

theorem application_keeps_schema:
  assumes "engine_lawful eng" "ping_lawful (pool_ping pool)"
    and "new_application listen ext cfg pool = Inr app"
    and "(served eng ext app)\<^sup>*\<^sup>* (r, empty_world fs) (r', w)"
  shows "schema_ok (pool_pg pool) (w_db w)"
  using served_many_world_ok [OF assms(4,1-3)] by (simp add: world_ok_empty) (simp add: world_ok_def)

text \<open>C34: the database pool is closed exactly once on every path on which it was opened, after the
  application has stopped serving, and each failure of the start comes back with its own prefix.\<close>

theorem run_server_paths:
  "(\<exists>e. run_server host ext result cfg = (Some e, []) \<and>
       open_database_pool host (cfg_database_url cfg) = Inl e) \<or>
   (\<exists>pool e. run_server host ext result cfg
         = (Some (wrap_error ''listen for gRPC: '' e), [Pool_Opened (cfg_database_url cfg), Pool_Closed]) \<and>
       open_database_pool host (cfg_database_url cfg) = Inr pool \<and>
       host_listen host ''tcp'' (cfg_grpc_address cfg) = Inl e) \<or>
   (\<exists>pool app. run_server host ext result cfg
         = (result app, [Pool_Opened (cfg_database_url cfg), Serve app, Pool_Closed]) \<and>
       open_database_pool host (cfg_database_url cfg) = Inr pool \<and>
       new_application (host_listen host) ext cfg pool = Inr app)"
proof (cases "open_database_pool host (cfg_database_url cfg)")
  case (Inr pool)
  show ?thesis
  proof (cases "new_application (host_listen host) ext cfg pool")
    case (Inl e)
    then obtain e' where "host_listen host ''tcp'' (cfg_grpc_address cfg) = Inl e'"
      "e = wrap_error ''listen for gRPC: '' e'"
      by (auto simp: new_application_def Let_def split: sum.splits)
    with Inl Inr show ?thesis by (simp add: run_server_def)
  qed (use Inr in \<open>simp add: run_server_def\<close>)
qed (simp add: run_server_def)

text \<open>C33: the exit status. The program ends with 0 or 1, and 0 means that it has served at the addresses
  the environment names (or the defaults), that in this run of the application a signal has come and
  the gRPC server has been stopped, and that the pool was closed after that. It is 0 exactly when an
  application was served and \<open>serve\<close> returned no error.\<close>

theorem server_exit_status:
  assumes "serves final result" "server_main host ext result env = (status, events)"
  shows "status \<le> 1 \<and> (status = 0 \<longleftrightarrow> (\<exists>app. Serve app \<in> set events \<and> result app = None)) \<and>
    (status = 0 \<longrightarrow>
      (\<exists>app. events = [Pool_Opened (env_or_default env ''ARXVEIL_DATABASE_URL'' default_database_url),
           Serve app, Pool_Closed] \<and>
         http_addr (app_http_server app) = env_or_default env ''ARXVEIL_SERVER_ADDRESS'' '':8080'' \<and>
         host_listen host ''tcp'' (env_or_default env ''ARXVEIL_SERVER_GRPC_ADDRESS'' '':9090'')
           = Inr (app_grpc_listener app) \<and>
         lc_main (final app) = Returned_Main None \<and> lc_signal (final app) \<and> lc_stop_done (final app)))"
proof (cases "fst (run_server host ext result (load_config env))")
  case None
  let ?cfg = "load_config env"
  obtain pool app where pool: "open_database_pool host (cfg_database_url ?cfg) = Inr pool"
    and app: "new_application (host_listen host) ext ?cfg pool = Inr app" and ok: "result app = None"
    using None by (auto simp: run_server_def Let_def split: sum.splits)
  have s: "lifecycle_reachable (final app)" "lc_main (final app) = Returned_Main None"
    using assms(1) ok by (simp_all add: serves_def)
  then have "lc_signal (final app)" "lc_stop_done (final app)"
    using lifecycle_reachable_ok [OF s(1)]
    by (auto simp: lifecycle_ok_def result_ok_def serve_result_def cause_ok_def split: option.splits)
  moreover have "status = 0" "events = [Pool_Opened (cfg_database_url ?cfg), Serve app, Pool_Closed]"
    using assms(2) pool app ok by (auto simp: server_main_def run_server_def)
  ultimately show ?thesis
    using s ok new_application_addresses(1,2) [OF app]
    by (auto simp: load_config_def default_server_address_def default_grpc_address_def)
next
  case (Some e)
  then have "result app \<noteq> None" if "Serve app \<in> set events" for app
    using that assms(2)
    by (auto simp: server_main_def run_server_def Let_def split: sum.splits option.splits prod.splits)
  with Some assms(2) show ?thesis by (auto simp: server_main_def split: prod.splits)
qed

section \<open>Witnesses\<close>

definition sample_pool :: pool where
  "sample_pool = \<lparr>pool_pg = sample_pg, pool_ping = (\<lambda>c w. (None, w))\<rparr>"

definition sample_host :: "(string, nat) host" where
  "sample_host = \<lparr>host_parse = Inr, host_connect = (\<lambda>_. Inr sample_pool), host_listen = (\<lambda>_ _. Inr 7)\<rparr>"

lemma sample_application:
  "\<exists>app. new_application (host_listen sample_host) sample_externals (load_config Map.empty) sample_pool
     = Inr app"
  by (simp add: new_application_def sample_host_def Let_def)

theorem application_keeps_schema_witness:
  "\<exists>app r w. new_application (host_listen sample_host) sample_externals (load_config Map.empty) sample_pool
       = Inr app \<and>
     (served sample_engine sample_externals app)\<^sup>*\<^sup>* ([(replicate 32 7, None)], empty_world []) (r, w) \<and>
     w_db w \<noteq> empty_tables \<and> schema_ok sample_pg (w_db w)"
proof -
  obtain app where app: "new_application (host_listen sample_host) sample_externals
      (load_config Map.empty) sample_pool = Inr app"
    using sample_application by blast
  have ping: "ping_lawful (pool_ping sample_pool)"
  proof -
    have "snd (pool_ping sample_pool c w) = w\<lparr>w_faults := w_faults w\<rparr>" for c and w :: world
      by (simp add: sample_pool_def)
    then show ?thesis unfolding ping_lawful_def by blast
  qed
  obtain resp w where e: "grpc_enroll (enrollment_service (pg_enrollment_store sample_pg)) background
      (Some demo_request) ([(replicate 32 7, None)], empty_world []) = (Inr resp, [], w)"
    using demo_enrolled by blast
  have "served sample_engine sample_externals app ([(replicate 32 7, None)], empty_world []) ([], w)"
    by (rule served_enroll [of app background "Some demo_request"])
       (use e new_application_wiring(2) [OF app] in \<open>simp add: sample_pool_def\<close>)
  then have run: "(served sample_engine sample_externals app)\<^sup>*\<^sup>*
      ([(replicate 32 7, None)], empty_world []) ([], w)" by blast
  obtain mid aid where "pg_identities w aid = Some (mid, sha256 (string_bytes (resp_agent_secret resp)))"
    using grpc_enrolled [OF sample_pg_lawful e] by blast
  then have "w_db w \<noteq> empty_tables" by (auto simp: pg_identities_def empty_tables_def active_identity_def)
  moreover have "schema_ok sample_pg (w_db w)"
    using application_keeps_schema [OF sample_engine_lawful ping app run] by (simp add: sample_pool_def)
  ultimately show ?thesis using app run by blast
qed

text \<open>A host on which the server starts, is signalled and stops.\<close>

lemma signalled_stop:
  "\<exists>s. lifecycle_reachable s \<and> lc_main s = Returned_Main None"
proof -
  let ?a = "initial_lifecycle\<lparr>lc_signal := True\<rparr>"
  let ?b = "?a\<lparr>lc_main := Shutting_Http None\<rparr>"
  let ?c = "?b\<lparr>lc_main := Stopping_Grpc None, lc_stop_called := True\<rparr>"
  let ?d = "?c\<lparr>lc_stop_done := True\<rparr>"
  note [simp] = initial_lifecycle_def http_shutdown_returned_def serve_result_def
  have "lifecycle_step initial_lifecycle ?a" using lifecycle_step.signal [of initial_lifecycle] by simp
  moreover have "lifecycle_step ?a ?b" using lifecycle_step.select_signal [of ?a] by simp
  moreover have "lifecycle_step ?b ?c" using lifecycle_step.shutdown_ok [of ?b None] by simp
  moreover have "lifecycle_step ?c ?d" using lifecycle_step.stop_returns [of ?c] by simp
  moreover have "lifecycle_step ?d (?d\<lparr>lc_main := Returned_Main None\<rparr>)"
    using lifecycle_step.stopped [of ?d None] by simp
  ultimately have "lifecycle_reachable (?d\<lparr>lc_main := Returned_Main None\<rparr>)"
    by (meson rtranclp.rtrancl_into_rtrancl rtranclp.rtrancl_refl)
  then show ?thesis by (intro exI [of _ "?d\<lparr>lc_main := Returned_Main None\<rparr>"]) simp
qed

theorem server_exit_status_witness:
  "\<exists>app s. server_main sample_host sample_externals (\<lambda>_. None)
       [''ARXVEIL_SERVER_ADDRESS'' \<mapsto> ''localhost:80''] =
         (0, [Pool_Opened default_database_url, Serve app, Pool_Closed]) \<and>
     http_addr (app_http_server app) = ''localhost:80'' \<and>
     lifecycle_reachable s \<and> lc_signal s \<and> lc_stop_done s"
proof -
  let ?env = "[''ARXVEIL_SERVER_ADDRESS'' \<mapsto> ''localhost:80'']"
  let ?run = "server_main sample_host sample_externals (\<lambda>_ :: nat application. None) ?env"
  obtain l where l: "lifecycle_reachable l" "lc_main l = Returned_Main None"
    using signalled_stop by blast
  then have s: "serves (\<lambda>_. l) (\<lambda>_ :: nat application. None)" by (simp add: serves_def)
  have "fst ?run = 0"
    by (simp add: server_main_def run_server_def open_database_pool_def new_application_def
        sample_host_def Let_def)
  then have run: "?run = (0, snd ?run)" by (metis prod.collapse)
  show ?thesis using server_exit_status [OF s run] run l(1) by (auto simp: env_or_default_def)
qed

end
