(* ===== verification/Stream_Life.thy ===== *)
theory Stream_Life
  imports Server
begin

text \<open>
  A whole stream on a working database: an agent authenticates, sends any reports (heartbeats and
  sensible telemetry updates) and closes the stream. The handler of \<^verbatim>\<open>agentgrpc/server.go\<close>, the
  services and the PostgreSQL stores are put together and run to the end, with no stream beside it.
\<close>

section \<open>Reports\<close>

datatype report = Beat heartbeat | Update telemetry

definition report_event :: "ctx \<times> report \<Rightarrow> recv_event" where
  "report_event = (\<lambda>(c, r). \<lparr>ev_ctx = c, ev_result = Inr (Some \<lparr>msg_payload = Some
     (case r of Beat h \<Rightarrow> Heartbeat (Some h) | Update u \<Rightarrow> Telemetry (Some u))\<rparr>)\<rparr>)"

definition authenticate_event :: "ctx \<Rightarrow> credentials \<Rightarrow> recv_event" where
  "authenticate_event c creds = \<lparr>ev_ctx = c, ev_result = Inr (Some \<lparr>msg_payload = Some
     (Authenticate (Some \<lparr>auth_agent_id = cred_agent_id creds, auth_agent_secret = cred_secret creds\<rparr>))\<rparr>)\<rparr>"

text \<open>The sample an update stands for, and whether it makes sense.\<close>

definition update_sample :: "externals \<Rightarrow> string \<Rightarrow> telemetry \<Rightarrow> sample option" where
  "update_sample ext mid u =
     (case tm_collected_at u of
        None \<Rightarrow> None
      | Some ts \<Rightarrow>
          if ext_ts_valid ext ts
          then Some \<lparr>smp_machine_id = mid, smp_collected_at = ext_ts_time ext ts,
             smp_cpu_usage_percent = tm_cpu_usage_percent u,
             smp_memory_total_bytes = tm_memory_total_bytes u, smp_memory_used_bytes = tm_memory_used_bytes u,
             smp_disk_total_bytes = tm_disk_total_bytes u, smp_disk_used_bytes = tm_disk_used_bytes u,
             smp_uptime_seconds = tm_uptime_seconds u\<rparr>
          else None)"

definition report_ok :: "externals \<Rightarrow> string \<Rightarrow> ctx \<times> report \<Rightarrow> bool" where
  "report_ok ext mid = (\<lambda>(c, r). \<not> ctx_done c \<and>
     (case r of
        Beat h \<Rightarrow> True
      | Update u \<Rightarrow> (case update_sample ext mid u of None \<Rightarrow> False | Some smp \<Rightarrow> valid_sample smp)))"

text \<open>The last sample reported for a time of collection.\<close>

fun last_sample :: "externals \<Rightarrow> pg \<Rightarrow> string \<Rightarrow> (ctx \<times> report) list \<Rightarrow> int \<Rightarrow> sample option" where
  "last_sample ext p mid [] t = None"
| "last_sample ext p mid ((c, r) # rs) t =
     (case last_sample ext p mid rs t of
        Some smp \<Rightarrow> Some smp
      | None \<Rightarrow>
     (case r of
        Beat h \<Rightarrow> None
      | Update u \<Rightarrow>
     (case update_sample ext mid u of
        None \<Rightarrow> None
      | Some smp \<Rightarrow> if pg_time_in p (smp_collected_at smp) = t then Some smp else None)))"

definition stored_as :: "pg \<Rightarrow> sample option \<Rightarrow> sample_row option \<Rightarrow> sample_row option \<Rightarrow> bool" where
  \<comment> \<open>the row after, given the sample reported and the row before\<close>
  "stored_as p smp before after \<longleftrightarrow>
     (case smp of
        None \<Rightarrow> after = before
      | Some smp \<Rightarrow>
          \<exists>cpu received. 0 \<le> cpu \<and> cpu \<le> 10000 \<and>
            pg_numeric p (smp_cpu_usage_percent smp) = Some cpu \<and> after = Some (sample_values smp cpu received))"

section \<open>One message\<close>

lemma telemetry_sample_update:
  "telemetry_sample ext sess (Some u) =
     (case update_sample ext (sess_machine_id sess) u of
        Some smp \<Rightarrow> Inr smp
      | None \<Rightarrow> Inl (if tm_collected_at u = None then New ''telemetry collection time is required''
                     else External ''invalid timestamp''))"
  by (simp add: telemetry_sample_def update_sample_def getter_defs split: option.split)

lemma touch_works:
  assumes "\<not> ctx_done c" "w_faults w = []" "pg_uuid_in p (sess_machine_id sess) = Some m"
  obtains w' where "record_activity (pg_presence_store p) c sess w = (None, w')" "w_faults w' = []"
    "pg_view w' = pg_view w" "tb_events (w_db w') = tb_events (w_db w)"
    "tb_samples (w_db w') = tb_samples (w_db w)"
proof -
  obtain r w' where t: "pg_touch_session p c sess w = (r, w')" by force
  have "r = None" using t assms by (auto simp: pg_touch_session_def read_clock_def)
  then have "record_activity (pg_presence_store p) c sess w = (None, w')"
    using t by (simp add: record_activity_def)
  moreover have "w_faults w' = []" by (rule touch_no_faults [OF t assms(2)])
  moreover have "pg_view w' = pg_view w" "tb_events (w_db w') = tb_events (w_db w)"
    using pg_touch_cases [OF t] by (auto simp: same_events dest: pg_view_touch pg_view_db)
  moreover have "tb_samples (w_db w') = tb_samples (w_db w)"
    using pg_touch_cases [OF t] by (auto simp: frame)
  ultimately show thesis using that by blast
qed

lemma report_works:
  assumes "pg_lawful p" "w_faults w = []" "report_ok ext (sess_machine_id sess) (c, r)"
    and "pg_uuid_in p (sess_machine_id sess) = Some m" "pg_view w m \<noteq> None"
  obtains w' where
    "handle_message ext (presence_service ext (pg_presence_store p))
       (telemetry_service (pg_telemetry_store p)) (ev_ctx (report_event (c, r))) sess
       (projr (ev_result (report_event (c, r)))) w = (None, w')"
    "w_faults w' = []" "pg_view w' = pg_view w" "tb_events (w_db w') = tb_events (w_db w)"
    "\<forall>k t. stored_as p (if k = m then last_sample ext p (sess_machine_id sess) [(c, r)] t else None)
       (tb_samples (w_db w) (k, t)) (tb_samples (w_db w') (k, t))"
proof (cases r)
  case (Beat h)
  obtain w' where "record_activity (pg_presence_store p) c sess w = (None, w')" "w_faults w' = []"
    "pg_view w' = pg_view w" "tb_events (w_db w') = tb_events (w_db w)"
    "tb_samples (w_db w') = tb_samples (w_db w)"
    using touch_works [OF _ assms(2,4), of c] assms(3) by (auto simp: report_ok_def)
  then show thesis
    by (intro that [of w'])
       (simp_all add: Beat handle_message_def report_event_def get_heartbeat_def stored_as_def)
next
  case (Update u)
  then obtain smp where smp: "update_sample ext (sess_machine_id sess) u = Some smp" "valid_sample smp"
    and c: "\<not> ctx_done c"
    using assms(3) by (auto simp: report_ok_def split: option.splits)
  have mid: "smp_machine_id smp = sess_machine_id sess"
    using smp(1) by (auto simp: update_sample_def split: option.splits if_splits)
  have dom: "m \<in> dom (tb_machines (w_db w))" using assms(5) by (auto simp: pg_view_def)
  let ?t = "pg_time_in p (smp_collected_at smp)"
  have id: "pg_uuid_in p (smp_machine_id smp) = Some m" using assms(4) mid by simp
  obtain w1 cpu received where rec: "record_sample (pg_telemetry_store p) c smp w = (None, w1)"
    "w_faults w1 = []" "0 \<le> cpu" "cpu \<le> 10000" "pg_numeric p (smp_cpu_usage_percent smp) = Some cpu"
    "w_db w1 = (w_db w)\<lparr>tb_samples := (tb_samples (w_db w))((m, ?t) \<mapsto> sample_values smp cpu received)\<rparr>"
    using record_sample_works [OF assms(1) c assms(2) smp(2) id dom] .
  obtain w2 where act: "record_activity (pg_presence_store p) c sess w1 = (None, w2)" "w_faults w2 = []"
    "pg_view w2 = pg_view w1" "tb_events (w_db w2) = tb_events (w_db w1)"
    "tb_samples (w_db w2) = tb_samples (w_db w1)"
    using touch_works [OF c rec(2) assms(4)] .
  have "handle_message ext (presence_service ext (pg_presence_store p))
       (telemetry_service (pg_telemetry_store p)) (ev_ctx (report_event (c, r))) sess
       (projr (ev_result (report_event (c, r)))) w = (None, w2)"
    using rec(1) act(1) smp(1)
    by (simp add: Update handle_message_def report_event_def get_heartbeat_def get_authenticate_def
        get_telemetry_def telemetry_sample_update)
  moreover have "pg_view w1 = pg_view w" using rec(6) by (simp add: pg_view_def)
  moreover have "stored_as p (if k = m then last_sample ext p (sess_machine_id sess) [(c, r)] t else None)
       (tb_samples (w_db w) (k, t)) (tb_samples (w_db w2) (k, t))" for k t
    using rec(3,4,5) by (auto simp: stored_as_def Update smp(1) act(5) rec(6))
  ultimately show thesis using that act rec(6) by simp
qed

section \<open>All messages\<close>

lemma stored_as_trans:
  assumes "stored_as p x before mid" "stored_as p y mid after"
  shows "stored_as p (case y of Some smp \<Rightarrow> Some smp | None \<Rightarrow> x) before after"
  using assms by (auto simp: stored_as_def split: option.splits)

lemma last_sample_Cons:
  "last_sample ext p mid (r # rs) t =
     (case last_sample ext p mid rs t of Some smp \<Rightarrow> Some smp | None \<Rightarrow> last_sample ext p mid [r] t)"
  by (cases r) (simp split: option.split)

lemma report_event_result: "\<exists>msg. ev_result (report_event r) = Inr msg"
  by (simp add: report_event_def split: prod.split)

lemma reports_work:
  fixes sess :: session
  defines "mid \<equiv> sess_machine_id sess"
  assumes "pg_lawful p" "list_all (report_ok ext mid) rs" "w_faults w = []"
    and "pg_uuid_in p mid = Some m" "pg_view w m \<noteq> None"
  shows "\<exists>w'.
    stream_loop ext (presence_service ext (pg_presence_store p)) (telemetry_service (pg_telemetry_store p))
      reply sess (map report_event rs @ rest) w
    = stream_loop ext (presence_service ext (pg_presence_store p)) (telemetry_service (pg_telemetry_store p))
      reply sess rest w' \<and>
    w_faults w' = [] \<and> pg_view w' = pg_view w \<and> tb_events (w_db w') = tb_events (w_db w) \<and>
    (\<forall>k t. stored_as p (if k = m then last_sample ext p mid rs t else None)
       (tb_samples (w_db w) (k, t)) (tb_samples (w_db w') (k, t)))"
  using assms(3,4,6)
proof (induction rs arbitrary: w)
  case Nil
  then show ?case by (intro exI [of _ w]) (simp add: stored_as_def)
next
  case (Cons r rs)
  obtain c x where r: "r = (c, x)" by force
  have ok: "report_ok ext (sess_machine_id sess) (c, x)" using Cons.prems(1) r by (simp add: mid_def)
  have id: "pg_uuid_in p (sess_machine_id sess) = Some m" using assms(5) by (simp add: mid_def)
  obtain w1 where step: "handle_message ext (presence_service ext (pg_presence_store p))
       (telemetry_service (pg_telemetry_store p)) (ev_ctx (report_event r)) sess
       (projr (ev_result (report_event r))) w = (None, w1)"
    and w1: "w_faults w1 = []" "pg_view w1 = pg_view w" "tb_events (w_db w1) = tb_events (w_db w)"
    and s1: "\<forall>k t. stored_as p (if k = m then last_sample ext p mid [r] t else None)
       (tb_samples (w_db w) (k, t)) (tb_samples (w_db w1) (k, t))"
    by (rule report_works [OF assms(2) Cons.prems(2) ok id Cons.prems(3), folded r mid_def])
  have "list_all (report_ok ext mid) rs" "pg_view w1 m \<noteq> None" using Cons.prems w1(2) by simp_all
  then obtain w2 where w2: "stream_loop ext (presence_service ext (pg_presence_store p))
      (telemetry_service (pg_telemetry_store p)) reply sess (map report_event rs @ rest) w1
    = stream_loop ext (presence_service ext (pg_presence_store p)) (telemetry_service (pg_telemetry_store p))
      reply sess rest w2"
    "w_faults w2 = []" "pg_view w2 = pg_view w1" "tb_events (w_db w2) = tb_events (w_db w1)"
    and s2: "\<forall>k t. stored_as p (if k = m then last_sample ext p mid rs t else None)
       (tb_samples (w_db w1) (k, t)) (tb_samples (w_db w2) (k, t))"
    using Cons.IH [OF _ w1(1)] by blast
  obtain msg where "ev_result (report_event r) = Inr msg" using report_event_result by blast
  with step w2(1) have "stream_loop ext (presence_service ext (pg_presence_store p))
      (telemetry_service (pg_telemetry_store p)) reply sess (map report_event (r # rs) @ rest) w
    = stream_loop ext (presence_service ext (pg_presence_store p)) (telemetry_service (pg_telemetry_store p))
      reply sess rest w2"
    by simp
  moreover have "stored_as p (if k = m then last_sample ext p mid (r # rs) t else None)
       (tb_samples (w_db w) (k, t)) (tb_samples (w_db w2) (k, t))" for k t
    using stored_as_trans [OF s1 [rule_format, of k t] s2 [rule_format, of k t]]
    by (cases "k = m") (simp_all add: last_sample_Cons [of ext p mid r rs] split: option.splits)
  ultimately show ?case using w1 w2 by (intro exI [of _ w2]) simp
qed

section \<open>Properties\<close>

text \<open>C8: a whole stream on a working database. An enrolled agent that authenticates with its
  credentials, sends any heartbeats and sensible updates and closes the stream is acknowledged; for every
  time of collection the last update it reported is stored under its machine and nothing else has
  changed in the samples; the machine is offline with the time of this connection; and its presence log
  has grown by exactly the events of one session.\<close>

theorem stream_life:
  assumes "pg_lawful p" "\<not> ctx_done c" "w_faults w = []"
    and "presentable ext creds" "pg_uuid_in p (cred_agent_id creds) = Some a"
    and "active_identity a (tb_identities (w_db w)) = Some i"
    and "i_credential_hash i = sha256 (string_bytes (cred_secret creds))"
    and "tb_machines (w_db w) (i_machine_id i) = Some row"
    and "list_all (report_ok ext (pg_uuid_out p (i_machine_id i))) reports"
    and "ev_result eof = Inl e" "errors_is e EOF"
  shows "\<exists>w' connected.
    stream_updates ext (presence_service ext (pg_presence_store p)) (telemetry_service (pg_telemetry_store p))
      reply (authenticate_event c creds # map report_event reports @ [eof]) w = (Returned reply, w') \<and>
    pg_view w' = (pg_view w)(i_machine_id i \<mapsto> (False, Some connected)) \<and>
    machine_log (w_db w') (i_machine_id i) = machine_log (w_db w) (i_machine_id i)
      @ (if m_status row = Online then [Offline] else [Online, Offline]) \<and>
    (\<forall>k t. stored_as p (if k = i_machine_id i
         then last_sample ext p (pg_uuid_out p (i_machine_id i)) reports t else None)
       (tb_samples (w_db w) (k, t)) (tb_samples (w_db w') (k, t)))"
proof -
  let ?m = "i_machine_id i" and ?t = "pg_clock p (Suc (w_clock w))"
  let ?tracker = "presence_service ext (pg_presence_store p)"
  let ?recorder = "telemetry_service (pg_telemetry_store p)"
  obtain sess w1 where o: "open_session ext (pg_presence_store p) c creds w = (Inr sess, w1)"
    and sess: "sess_machine_id sess = pg_uuid_out p ?m" "sess_connected_at sess = pg_time_out p ?t"
    and w1: "w_faults w1 = []" "w_db w1 = online_tables ?m row ?t (pg_clock p (w_clock w + 2))
      (pg_clock p (w_clock w + 3)) (w_event_seq w) (pg_clock p (w_clock w)) (w_db w)"
    using open_session_works [OF assms(1-8)] assms(3) by simp
  have v1: "pg_view w1 = (pg_view w)(?m \<mapsto> (True, Some ?t))"
    and l1: "machine_log (w_db w1) ?m = machine_log (w_db w) ?m
      @ (if m_status row = Online then [] else [Online])"
    and s1: "tb_samples (w_db w1) = tb_samples (w_db w)"
    using w1(2) by (auto simp: pg_view_def online_tables_def Let_def set_machine_def
        add_event_def online_row_def fun_eq_iff machine_log_def)
  have id: "pg_uuid_in p (sess_machine_id sess) = Some ?m"
    and time: "pg_time_in p (sess_connected_at sess) = ?t"
    using assms(1) by (simp_all add: sess pg_lawfulD)
  obtain w2 where loop: "stream_loop ext ?tracker ?recorder reply sess (map report_event reports @ [eof]) w1
      = stream_loop ext ?tracker ?recorder reply sess [eof] w2"
    and w2: "w_faults w2 = []" "pg_view w2 = pg_view w1" "tb_events (w_db w2) = tb_events (w_db w1)"
    and s2: "\<And>k t. stored_as p (if k = ?m then last_sample ext p (sess_machine_id sess) reports t else None)
       (tb_samples (w_db w1) (k, t)) (tb_samples (w_db w2) (k, t))"
    using reports_work [OF assms(1) _ w1(1) id, of ext reports reply "[eof]"] assms(9) v1
    by (auto simp: sess(1))
  obtain row2 where row2: "tb_machines (w_db w2) ?m = Some row2" "m_status row2 = Online"
    "m_last_connected_at row2 = Some ?t"
    using w2(2) v1 by (auto simp: pg_view_def fun_eq_iff split: if_splits)
  have live: "\<not> ctx_done (with_timeout background session_close_timeout)" by simp
  obtain w3 where close: "pg_end_session p (with_timeout background session_close_timeout) sess w2 = (None, w3)"
    and w3: "w_db w3 = add_event \<lparr>e_id = w_event_seq w2, e_machine_id = ?m, e_status = Offline,
        e_occurred_at = pg_clock p (w_clock w2)\<rparr>
      (set_machine ?m (offline_row (pg_clock p (Suc (w_clock w2))) (pg_clock p (w_clock w2 + 2)) row2)
        (w_db w2))"
    using pg_end_works [OF live w2(1) id row2(1,2)] row2(3) time by simp
  have same: "\<lparr>cred_agent_id = cred_agent_id creds, cred_secret = cred_secret creds\<rparr> = creds" by simp
  have "open_session ext (pg_presence_store p) c
      \<lparr>cred_agent_id = cred_agent_id creds, cred_secret = cred_secret creds\<rparr> w = (Inr sess, w1)"
    by (subst same) (rule o)
  then have "stream_updates ext ?tracker ?recorder reply
      (authenticate_event c creds # map report_event reports @ [eof]) w = (Returned reply, w3)"
    using close assms(10,11) loop
    by (simp add: stream_updates_def authenticate_stream_def authenticate_event_def get_authenticate_def
        getter_defs Let_def finish_stream_def close_once_def close_session_def)
  moreover have "pg_view w3 = (pg_view w)(?m \<mapsto> (False, Some ?t))"
    using row2(3) v1 w2(2)
    by (auto simp: w3 pg_view_def set_machine_def add_event_def offline_row_def fun_eq_iff)
  moreover have "machine_log (w_db w3) ?m = machine_log (w_db w) ?m
      @ (if m_status row = Online then [Offline] else [Online, Offline])"
    using l1 machine_log_events [OF w2(3)] by (simp add: w3)
  moreover have s3: "tb_samples (w_db w3) = tb_samples (w_db w2)"
    by (simp add: w3 frame)
  moreover have "stored_as p (if k = ?m then last_sample ext p (pg_uuid_out p ?m) reports t else None)
       (tb_samples (w_db w) (k, t)) (tb_samples (w_db w3) (k, t))" for k t
    using s2 [of k t] unfolding s1 s3 sess(1) .
  ultimately show ?thesis by (intro exI [of _ w3] exI [of _ ?t] conjI allI)
qed

section \<open>Witness\<close>

definition demo_update :: telemetry where
  "demo_update = \<lparr>tm_collected_at = Some (\<lparr>ts_seconds = 5, ts_nanos = 0\<rparr>), tm_cpu_usage_percent = f64_hundred,
     tm_memory_total_bytes = 8, tm_memory_used_bytes = 3, tm_disk_total_bytes = 9,
     tm_disk_used_bytes = 9, tm_uptime_seconds = 60\<rparr>"

definition demo_reports :: "(ctx \<times> report) list" where
  "demo_reports = [(background, Beat \<lparr>hb_sent_at = None\<rparr>), (background, Update demo_update)]"

lemma demo_update_sample:
  "update_sample sample_externals mid demo_update = Some \<lparr>smp_machine_id = mid,
     smp_collected_at = 62135596805000000000, smp_cpu_usage_percent = f64_hundred,
     smp_memory_total_bytes = 8, smp_memory_used_bytes = 3, smp_disk_total_bytes = 9,
     smp_disk_used_bytes = 9, smp_uptime_seconds = 60\<rparr>"
  by (simp add: update_sample_def demo_update_def sample_externals_def)

lemma demo_reports_ok: "list_all (report_ok sample_externals (bits_text 1)) demo_reports"
proof -
  have "f64_between_0_100 f64_hundred" by code_simp
  then show ?thesis
    by (simp add: demo_reports_def report_ok_def demo_update_sample valid_sample_def bits_text_not_blank)
qed

theorem stream_life_witness:
  "\<exists>w' row. stream_updates sample_externals
      (presence_service sample_externals (pg_presence_store sample_pg))
      (telemetry_service (pg_telemetry_store sample_pg)) None
      (authenticate_event background demo_credentials # map report_event demo_reports
        @ [recv_failed (Sentinel EOF)]) demo_world = (Returned None, w') \<and>
    machine_log (w_db w') 1 = [Online, Offline] \<and>
    tb_samples (w_db w') (1, 62135596805000000) = Some row \<and> t_disk_total_bytes row = 9"
proof -
  have log: "machine_log (w_db demo_world) 1 = []"
    by (simp add: machine_log_def demo_world_def empty_tables_def)
  have last: "last_sample sample_externals sample_pg (bits_text 1) demo_reports 62135596805000000 =
      update_sample sample_externals (bits_text 1) demo_update"
    by (simp add: demo_reports_def demo_update_sample) (simp add: sample_pg_def)
  obtain w' t where run: "stream_updates sample_externals
      (presence_service sample_externals (pg_presence_store sample_pg))
      (telemetry_service (pg_telemetry_store sample_pg)) None
      (authenticate_event background demo_credentials # map report_event demo_reports
        @ [recv_failed (Sentinel EOF)]) demo_world = (Returned None, w')"
    and "machine_log (w_db w') 1 = machine_log (w_db demo_world) 1
      @ (if m_status demo_machine = Online then [Offline] else [Online, Offline])"
    and st: "\<forall>k t. stored_as sample_pg (if k = 1
        then last_sample sample_externals sample_pg
          (pg_uuid_out sample_pg (i_machine_id demo_identity)) demo_reports t else None)
      (tb_samples (w_db demo_world) (k, t)) (tb_samples (w_db w') (k, t))"
    using stream_life [OF sample_pg_lawful ctx_done_background demo_facts(1) demo_presentable, of 2
        demo_identity demo_machine demo_reports "recv_failed (Sentinel EOF)" "Sentinel EOF" None]
      demo_reports_ok
    by (auto simp: recv_failed_def)
  then have "machine_log (w_db w') 1 = [Online, Offline]" using log by simp
  moreover obtain row where "tb_samples (w_db w') (1, 62135596805000000) = Some row"
      "t_disk_total_bytes row = 9"
    using st [rule_format, of 1 62135596805000000]
    by (auto simp: last demo_update_sample stored_as_def sample_values_def)
  ultimately show ?thesis using run by blast
qed

end
