(* ===== verification/Transactions.thy ===== *)
theory Transactions
  imports Server_Database
begin

text \<open>
  \<^verbatim>\<open>StartSession\<close> and \<^verbatim>\<open>EndSession\<close> of
  \<^verbatim>\<open>server/internal/repository/postgres/presence_store.go\<close> cut at their round trips, so that the
  statements of several transactions interleave. A transaction in progress is a \<open>txn\<close>, one per
  connection of the pool, and \<open>txn_step\<close> is its next statement. The isolation level is the default
  one, \<open>READ COMMITTED\<close>: a statement sees what has been committed when it runs and what its own
  transaction has written, a written row stays locked until the transaction ends, and a statement that
  writes a row locked by another transaction waits for it and then sees the committed row.
\<close>

section \<open>A transaction in progress\<close>

text \<open>What a transaction has written and not committed: the row of one machine and events.\<close>

record changes =
  ch_now :: int
  ch_machine :: uuid
  ch_row :: machine_row
  ch_events :: "event_row list"

definition merge_changes :: "changes \<Rightarrow> tables \<Rightarrow> tables" where
  "merge_changes ch tb = fold add_event (ch_events ch) (set_machine (ch_machine ch) (ch_row ch) tb)"

definition own_tx :: "changes \<Rightarrow> world \<Rightarrow> tx" where
  "own_tx ch w = \<lparr>tx_now = ch_now ch, tx_tables = merge_changes ch (w_db w)\<rparr>"

definition written :: "uuid \<Rightarrow> tx \<Rightarrow> world \<Rightarrow> changes" where
  "written m tx w =
     \<lparr>ch_now = tx_now tx, ch_machine = m, ch_row = the (tb_machines (tx_tables tx) m),
      ch_events = drop (length (tb_events (w_db w))) (tb_events (tx_tables tx))\<rparr>"

text \<open>The positions between the round trips, with the argument of the call.\<close>

datatype txn =
    Start_Call string                                  \<comment> \<open>before \<open>BeginTx\<close>\<close>
  | Start_Begun string int                             \<comment> \<open>before the update\<close>
  | Start_Marked string int machine_status changes     \<comment> \<open>before the insert\<close>
  | Start_Logged string int changes                    \<comment> \<open>before the commit\<close>
  | End_Call session
  | End_Begun session int
  | End_Unmatched session int                          \<comment> \<open>no row updated, before the commit\<close>
  | End_Marked session changes
  | End_Logged session changes

datatype answer = Started "go_error + go_time" | Ended "go_error option"

fun txn_step :: "pg \<Rightarrow> ctx \<Rightarrow> txn \<Rightarrow> world \<Rightarrow> (answer + txn) \<times> world" where
  "txn_step p c (Start_Call mid) w =
     (case begin_tx p c w of
        (Inl e, w) \<Rightarrow> (Inl (Started (Inl (wrap_error ''begin presence session transaction: '' e))), w)
      | (Inr tx, w) \<Rightarrow> (Inr (Start_Begun mid (tx_now tx)), w))"
| "txn_step p c (Start_Begun mid now) w =
     (case mark_online p c mid \<lparr>tx_now = now, tx_tables = w_db w\<rparr> w of
        (Inl e, w) \<Rightarrow> (Inl (Started (Inl (wrap_error ''mark machine online: '' e))), w)
      | (Inr None, w) \<Rightarrow>
          (Inl (Started (Inl (New ''start presence session: machine not found''))), w)
      | (Inr (Some ((connected, previous), tx)), w) \<Rightarrow>
          let ch = written (the (pg_uuid_in p mid)) tx w
          in (Inr (if previous \<noteq> Online then Start_Marked mid connected previous ch
                   else Start_Logged mid connected ch), w))"
| "txn_step p c (Start_Marked mid connected previous ch) w =
     (case record_online p c mid previous (own_tx ch w) w of
        (Inl e, w) \<Rightarrow> (Inl (Started (Inl (wrap_error ''record machine online event: '' e))), w)
      | (Inr tx, w) \<Rightarrow> (Inr (Start_Logged mid connected (written (ch_machine ch) tx w)), w))"
| "txn_step p c (Start_Logged mid connected ch) w =
     (case commit_tx c (own_tx ch w) w of
        (Some e, w) \<Rightarrow> (Inl (Started (Inl (wrap_error ''commit presence session transaction: '' e))), w)
      | (None, w) \<Rightarrow> (Inl (Started (Inr (pg_time_out p connected))), w))"
| "txn_step p c (End_Call sess) w =
     (case begin_tx p c w of
        (Inl e, w) \<Rightarrow> (Inl (Ended (Some (wrap_error ''begin end presence session transaction: '' e))), w)
      | (Inr tx, w) \<Rightarrow> (Inr (End_Begun sess (tx_now tx)), w))"
| "txn_step p c (End_Begun sess now) w =
     (case mark_offline p c sess \<lparr>tx_now = now, tx_tables = w_db w\<rparr> w of
        (Inl e, w) \<Rightarrow> (Inl (Ended (Some (wrap_error ''mark machine offline: '' e))), w)
      | (Inr None, w) \<Rightarrow> (Inr (End_Unmatched sess now), w)
      | (Inr (Some (m, tx)), w) \<Rightarrow> (Inr (End_Marked sess (written m tx w)), w))"
| "txn_step p c (End_Unmatched sess now) w =
     (case commit_tx c \<lparr>tx_now = now, tx_tables = w_db w\<rparr> w of
        (Some e, w) \<Rightarrow> (Inl (Ended (Some (wrap_error ''commit unchanged presence session: '' e))), w)
      | (None, w) \<Rightarrow> (Inl (Ended None), w))"
| "txn_step p c (End_Marked sess ch) w =
     (case insert_event p c (ch_machine ch) Offline (own_tx ch w) w of
        (Inl e, w) \<Rightarrow> (Inl (Ended (Some (wrap_error ''record machine offline event: '' e))), w)
      | (Inr tx, w) \<Rightarrow> (Inr (End_Logged sess (written (ch_machine ch) tx w)), w))"
| "txn_step p c (End_Logged sess ch) w =
     (case commit_tx c (own_tx ch w) w of
        (Some e, w) \<Rightarrow> (Inl (Ended (Some (wrap_error ''commit end presence session transaction: '' e))), w)
      | (None, w) \<Rightarrow> (Inl (Ended None), w))"

section \<open>A transaction on its own\<close>

fun txn_rank :: "txn \<Rightarrow> nat" where
  "txn_rank (Start_Call mid) = 4"
| "txn_rank (Start_Begun mid now) = 3"
| "txn_rank (Start_Marked mid t st ch) = 2"
| "txn_rank (Start_Logged mid t ch) = 1"
| "txn_rank (End_Call sess) = 4"
| "txn_rank (End_Begun sess now) = 3"
| "txn_rank (End_Unmatched sess now) = 1"
| "txn_rank (End_Marked sess ch) = 2"
| "txn_rank (End_Logged sess ch) = 1"

lemma txn_step_rank: "txn_step p c k w = (Inr k', w') \<Longrightarrow> txn_rank k' < txn_rank k"
  by (cases k) (auto simp: Let_def split: prod.splits sum.splits option.splits if_splits)

function run_txn :: "pg \<Rightarrow> ctx \<Rightarrow> txn \<Rightarrow> world \<Rightarrow> answer \<times> world" where
  "run_txn p c k w =
     (case txn_step p c k w of
        (Inl a, w) \<Rightarrow> (a, w)
      | (Inr k, w) \<Rightarrow> run_txn p c k w)"
  by pat_completeness auto
termination
  by (relation "measure (\<lambda>(p, c, k, w). txn_rank k)") (auto dest: txn_step_rank [OF sym])

declare run_txn.simps [simp del]

lemma run_txn_step:
  "txn_step p c k w = (Inr k', w') \<Longrightarrow> run_txn p c k w = run_txn p c k' w'"
  "txn_step p c k w = (Inl a, w') \<Longrightarrow> run_txn p c k w = (a, w')"
  by (simp_all add: run_txn.simps [of p c k w])

text \<open>The changes give back what the transaction sees.\<close>

lemma merge_changes_simps [simp]:
  "merge_changes \<lparr>ch_now = n, ch_machine = m, ch_row = row, ch_events = []\<rparr> tb = set_machine m row tb"
  "merge_changes \<lparr>ch_now = n, ch_machine = m, ch_row = row, ch_events = [e]\<rparr> tb
     = add_event e (set_machine m row tb)"
  by (simp_all add: merge_changes_def)

lemma written_row:
  "written m \<lparr>tx_now = now, tx_tables = set_machine m row (w_db w)\<rparr> w
     = \<lparr>ch_now = now, ch_machine = m, ch_row = row, ch_events = []\<rparr>"
  by (simp add: written_def set_machine_def)

lemma written_event:
  "written m \<lparr>tx_now = now, tx_tables = add_event e (set_machine m row (w_db w))\<rparr> w
     = \<lparr>ch_now = now, ch_machine = m, ch_row = row, ch_events = [e]\<rparr>"
  by (simp add: written_def set_machine_def add_event_def)

lemma own_tx_simps [simp]:
  "own_tx \<lparr>ch_now = n, ch_machine = m, ch_row = row, ch_events = []\<rparr> w
     = \<lparr>tx_now = n, tx_tables = set_machine m row (w_db w)\<rparr>"
  "own_tx \<lparr>ch_now = n, ch_machine = m, ch_row = row, ch_events = [e]\<rparr> w
     = \<lparr>tx_now = n, tx_tables = add_event e (set_machine m row (w_db w))\<rparr>"
  by (simp_all add: own_tx_def)

text \<open>The two update statements on the committed tables.\<close>

lemma mark_online_Some:
  assumes "mark_online p c mid \<lparr>tx_now = now, tx_tables = w_db w\<rparr> w = (Inr (Some ((t, prev), tx)), w')"
  obtains m row seen updated where "pg_uuid_in p mid = Some m" "tb_machines (w_db w) m = Some row"
    "prev = m_status row" "t = pg_clock p (w_clock w)" "w_clock w < w_clock w'"
    "w_db w' = w_db w" "w_event_seq w' = w_event_seq w" "later w w'"
    "tx = \<lparr>tx_now = now, tx_tables = set_machine m (online_row t seen updated row) (w_db w)\<rparr>"
  using mark_online_cases [OF assms] by auto

lemma mark_offline_Some:
  assumes "mark_offline p c sess \<lparr>tx_now = now, tx_tables = w_db w\<rparr> w = (Inr (Some (m, tx)), w')"
  obtains row disconnected updated where "pg_uuid_in p (sess_machine_id sess) = Some m"
    "tb_machines (w_db w) m = Some row" "m_status row = Online"
    "m_last_connected_at row = Some (pg_time_in p (sess_connected_at sess))"
    "w_db w' = w_db w" "w_event_seq w' = w_event_seq w" "later w w'"
    "tx = \<lparr>tx_now = now, tx_tables = set_machine m (offline_row disconnected updated row) (w_db w)\<rparr>"
  using mark_offline_cases [OF assms] by auto

lemma insert_event_Inr:
  assumes "insert_event p c m st \<lparr>tx_now = now, tx_tables = set_machine m row (w_db w)\<rparr> w = (Inr tx, w')"
  shows "w_db w' = w_db w \<and> later w w' \<and> w_clock w' = w_clock w \<and> w_event_seq w' = Suc (w_event_seq w) \<and>
    tx = \<lparr>tx_now = now, tx_tables = add_event \<lparr>e_id = w_event_seq w, e_machine_id = m, e_status = st,
      e_occurred_at = now\<rparr> (set_machine m row (w_db w))\<rparr>"
  using insert_event_cases [OF assms] by (auto simp: later_def)

lemma run_start:
  assumes "pg_start_session p c mid w = (r, w')"
  shows "run_txn p c (Start_Call mid) w = (Started r, w')"
proof -
  obtain rb wb where b: "begin_tx p c w = (rb, wb)" by force
  show ?thesis
  proof (cases rb)
    case (Inl e)
    with b assms show ?thesis by (intro run_txn_step(2)) (auto simp: pg_start_session_def)
  next
    case (Inr tx)
    obtain now where tx: "tx = \<lparr>tx_now = now, tx_tables = w_db wb\<rparr>"
      using begin_tx_frame [OF b] Inr by (cases tx) auto
    have "run_txn p c (Start_Call mid) w = run_txn p c (Start_Begun mid now) wb"
      by (rule run_txn_step(1)) (simp add: b Inr tx)
    also have "... = (Started r, w')"
    proof -
      obtain ro wo where o: "mark_online p c mid tx wb = (ro, wo)" by force
      consider (err) e where "ro = Inl e" | (none) "ro = Inr None"
        | (row) t prev tx1 where "ro = Inr (Some ((t, prev), tx1))"
        by (metis option.exhaust old.sum.exhaust surj_pair)
      then show ?thesis
      proof cases
        case err
        with assms b o Inr tx show ?thesis by (intro run_txn_step(2)) (auto simp: pg_start_session_def)
      next
        case none
        with assms b o Inr tx show ?thesis by (intro run_txn_step(2)) (auto simp: pg_start_session_def)
      next
        case row
        from o [unfolded row tx] obtain m mrow seen updated where m: "pg_uuid_in p mid = Some m"
          "w_db wo = w_db wb"
          "tx1 = \<lparr>tx_now = now, tx_tables = set_machine m (online_row t seen updated mrow) (w_db wb)\<rparr>"
          by (rule mark_online_Some)
        let ?ch = "\<lparr>ch_now = now, ch_machine = m, ch_row = online_row t seen updated mrow, ch_events = []\<rparr>"
        have wr: "written m tx1 wo = ?ch" by (simp add: m(3) written_row flip: m(2))
        obtain ri wi where i: "record_online p c mid prev tx1 wo = (ri, wi)" by force
        have rest: "run_txn p c (Start_Logged mid t ch) wi = (Started r, w')"
          if "ri = Inr tx2" "own_tx ch wi = tx2" for tx2 ch
        proof -
          obtain rc wc where "commit_tx c tx2 wi = (rc, wc)" by force
          with assms b o i Inr row that show ?thesis
            by (intro run_txn_step(2)) (auto simp: pg_start_session_def split: option.splits)
        qed
        show ?thesis
        proof (cases "prev = Online")
          case True
          with i have ri: "ri = Inr tx1" "wi = wo" by (simp_all add: record_online_def)
          have "run_txn p c (Start_Begun mid now) wb = run_txn p c (Start_Logged mid t ?ch) wo"
            by (rule run_txn_step(1)) (simp add: o [unfolded tx] row True m(1) wr)
          also have "... = (Started r, w')"
            using rest [OF ri(1), of ?ch] by (simp add: ri(2) m(2,3))
          finally show ?thesis .
        next
          case False
          have first: "run_txn p c (Start_Begun mid now) wb = run_txn p c (Start_Marked mid t prev ?ch) wo"
            by (rule run_txn_step(1)) (simp add: o [unfolded tx] row False m(1) wr)
          have own: "own_tx ?ch wo = tx1" by (simp add: m(2,3))
          show ?thesis
          proof (cases ri)
            case Ri: (Inl e)
            with assms b o i Inr row first own show ?thesis
              by (simp add: run_txn_step(2) pg_start_session_def)
          next
            case Ri: (Inr tx2)
            with i False m(1) have ins: "insert_event p c m Online
                \<lparr>tx_now = now, tx_tables = set_machine m (online_row t seen updated mrow) (w_db wo)\<rparr> wo
                = (Inr tx2, wi)"
              by (simp add: record_online_def m(2,3))
            note tx2 = insert_event_Inr [OF ins]
            let ?ch2 = "written m tx2 wi"
            have "run_txn p c (Start_Marked mid t prev ?ch) wo = run_txn p c (Start_Logged mid t ?ch2) wi"
              by (rule run_txn_step(1)) (use i Ri own in simp)
            moreover have "own_tx ?ch2 wi = tx2"
              using tx2 written_event [of m now _ _ wi] by simp
            ultimately show ?thesis using first rest [OF Ri] by simp
          qed
        qed
      qed
    qed
    finally show ?thesis .
  qed
qed

lemma run_end:
  assumes "pg_end_session p c sess w = (r, w')"
  shows "run_txn p c (End_Call sess) w = (Ended r, w')"
proof -
  obtain rb wb where b: "begin_tx p c w = (rb, wb)" by force
  show ?thesis
  proof (cases rb)
    case (Inl e)
    with b assms show ?thesis by (intro run_txn_step(2)) (auto simp: pg_end_session_def)
  next
    case (Inr tx)
    obtain now where tx: "tx = \<lparr>tx_now = now, tx_tables = w_db wb\<rparr>"
      using begin_tx_frame [OF b] Inr by (cases tx) auto
    have "run_txn p c (End_Call sess) w = run_txn p c (End_Begun sess now) wb"
      by (rule run_txn_step(1)) (simp add: b Inr tx)
    also have "... = (Ended r, w')"
    proof -
      obtain ro wo where o: "mark_offline p c sess tx wb = (ro, wo)" by force
      consider (err) e where "ro = Inl e" | (none) "ro = Inr None"
        | (row) m tx1 where "ro = Inr (Some (m, tx1))"
        by (metis option.exhaust old.sum.exhaust surj_pair)
      then show ?thesis
      proof cases
        case err
        with assms b o Inr tx show ?thesis by (intro run_txn_step(2)) (auto simp: pg_end_session_def)
      next
        case none
        have dbo: "w_db wo = w_db wb" using mark_offline_cases [OF o] by simp
        obtain rc wc where k: "commit_tx c tx wo = (rc, wc)" by force
        have "run_txn p c (End_Begun sess now) wb = run_txn p c (End_Unmatched sess now) wo"
          by (rule run_txn_step(1)) (simp add: o [unfolded tx] none)
        also have "... = (Ended r, w')"
          using assms b o k Inr none
          by (intro run_txn_step(2)) (auto simp: pg_end_session_def tx dbo split: option.splits)
        finally show ?thesis .
      next
        case row
        from o [unfolded row tx] obtain mrow disc updated where m: "w_db wo = w_db wb"
          "tx1 = \<lparr>tx_now = now, tx_tables = set_machine m (offline_row disc updated mrow) (w_db wb)\<rparr>"
          by (rule mark_offline_Some)
        let ?ch = "\<lparr>ch_now = now, ch_machine = m, ch_row = offline_row disc updated mrow, ch_events = []\<rparr>"
        have wr: "written m tx1 wo = ?ch" by (simp add: m(2) written_row flip: m(1))
        have own: "own_tx ?ch wo = tx1" by (simp add: m)
        obtain ri wi where i: "insert_event p c m Offline tx1 wo = (ri, wi)" by force
        have first: "run_txn p c (End_Begun sess now) wb = run_txn p c (End_Marked sess ?ch) wo"
          by (rule run_txn_step(1)) (simp add: o [unfolded tx] row wr)
        show ?thesis
        proof (cases ri)
          case Ri: (Inl e)
          with assms b o i Inr row first own show ?thesis
            by (simp add: run_txn_step(2) pg_end_session_def)
        next
          case Ri: (Inr tx2)
          with i have ins: "insert_event p c m Offline
              \<lparr>tx_now = now, tx_tables = set_machine m (offline_row disc updated mrow) (w_db wo)\<rparr> wo
              = (Inr tx2, wi)"
            by (simp add: m)
          let ?ch2 = "written m tx2 wi"
          have "run_txn p c (End_Marked sess ?ch) wo = run_txn p c (End_Logged sess ?ch2) wi"
            by (rule run_txn_step(1)) (use i Ri own in simp)
          moreover have own2: "own_tx ?ch2 wi = tx2"
            using insert_event_Inr [OF ins] written_event [of m now _ _ wi] by simp
          moreover obtain rc wc where "commit_tx c tx2 wi = (rc, wc)" by force
          moreover from this have "run_txn p c (End_Logged sess ?ch2) wi = (Ended r, w')"
            using assms b o i Inr row Ri own2
            by (intro run_txn_step(2)) (auto simp: pg_end_session_def split: option.splits)
          ultimately show ?thesis using first by simp
        qed
      qed
    qed
    finally show ?thesis .
  qed
qed

section \<open>Many transactions\<close>

text \<open>
  The transactions in progress by number, the row locks of the database, and the committed world.
  \<open>advance\<close> lets transaction \<open>n\<close> take its next statement, with the answer of the call when that was
  the last one; it is \<open>None\<close> when the transaction has to wait for a row another one has locked.
  Locks are held until the transaction ends.
\<close>

type_synonym sessions = "(nat \<Rightarrow> txn option) \<times> (uuid \<Rightarrow> nat option) \<times> world"

fun locked :: "txn \<Rightarrow> uuid option" where
  "locked (Start_Marked mid t previous ch) = Some (ch_machine ch)"
| "locked (Start_Logged mid t ch) = Some (ch_machine ch)"
| "locked (End_Marked sess ch) = Some (ch_machine ch)"
| "locked (End_Logged sess ch) = Some (ch_machine ch)"
| "locked _ = None"

fun advance :: "pg \<Rightarrow> ctx \<Rightarrow> nat \<Rightarrow> sessions \<Rightarrow> (answer option \<times> sessions) option" where
  "advance p c n (ts, ls, w) =
     (case ts n of
        None \<Rightarrow> None
      | Some k \<Rightarrow>
     (case txn_step p c k w of
        (Inl a, w') \<Rightarrow>
          Some (Some a, ts(n := None),
                case locked k of None \<Rightarrow> ls | Some m \<Rightarrow> ls(m := None), w')
      | (Inr k', w') \<Rightarrow>
     (case locked k' of
        None \<Rightarrow> Some (None, ts(n \<mapsto> k'), ls, w')
      | Some m \<Rightarrow>
          if ls m = None \<or> ls m = Some n
          then Some (None, ts(n \<mapsto> k'), ls(m \<mapsto> n), w')
          else None)))"

text \<open>A scheduler: the transactions take their next statements in the order of the list, one that has
  to wait stays where it is.\<close>

definition schedule :: "pg \<Rightarrow> ctx \<Rightarrow> nat list \<Rightarrow> sessions \<Rightarrow> sessions" where
  "schedule p c = fold (\<lambda>n x. case advance p c n x of None \<Rightarrow> x | Some (_, y) \<Rightarrow> y)"

text \<open>The store operations of one statement and the enrollment, which touch no row a transaction of
  \<open>StartSession\<close> or \<open>EndSession\<close> has locked. At any moment the server may crash: the transactions in
  progress are rolled back and their locks released.\<close>

inductive plain_call :: "pg \<Rightarrow> world \<Rightarrow> world \<Rightarrow> bool" for p where
  call_enroll: "pg_enroll p c se w = (r1, w') \<Longrightarrow> plain_call p w w'"
| call_find: "pg_find_active_identity p c a w = (r2, w') \<Longrightarrow> plain_call p w w'"
| call_touch: "pg_touch_session p c sess w = (r4, w') \<Longrightarrow> plain_call p w w'"
| call_record: "pg_record p c smp w = (r6, w') \<Longrightarrow> plain_call p w w'"

definition locks_kept :: "(uuid \<Rightarrow> nat option) \<Rightarrow> world \<Rightarrow> world \<Rightarrow> bool" where
  "locks_kept ls w w' \<longleftrightarrow>
     (\<forall>m. ls m \<noteq> None \<longrightarrow> tb_machines (w_db w') m = tb_machines (w_db w) m)"

inductive sessions_step :: "pg \<Rightarrow> sessions \<Rightarrow> sessions \<Rightarrow> bool" for p where
  start_call: "ts n = None \<Longrightarrow> sessions_step p (ts, ls, w) (ts(n \<mapsto> Start_Call mid), ls, w)"
| end_call: "ts n = None \<Longrightarrow> sessions_step p (ts, ls, w) (ts(n \<mapsto> End_Call sess), ls, w)"
| statement: "advance p c n x = Some (a, y) \<Longrightarrow> sessions_step p x y"
| plain: "plain_call p w w' \<Longrightarrow> locks_kept ls w w' \<Longrightarrow> sessions_step p (ts, ls, w) (ts, ls, w')"
| crash: "sessions_step p (ts, ls, w) (\<lambda>_. None, \<lambda>_. None, w)"

inductive sessions_reachable :: "pg \<Rightarrow> sessions \<Rightarrow> bool" for p where
  nothing_yet: "sessions_reachable p (\<lambda>_. None, \<lambda>_. None, empty_world fs)"
| one_more: "sessions_reachable p x \<Longrightarrow> sessions_step p x y \<Longrightarrow> sessions_reachable p y"

section \<open>Properties\<close>

text \<open>C16: cutting the session calls at their round trips changes nothing for a call that runs alone: its
  statements one after the other give the answer and the world of the call in one piece.\<close>

theorem session_calls_alone:
  "run_txn p c (Start_Call mid) w = (case pg_start_session p c mid w of (r, w') \<Rightarrow> (Started r, w')) \<and>
   run_txn p c (End_Call sess) w = (case pg_end_session p c sess w of (r, w') \<Rightarrow> (Ended r, w'))"
  by (simp add: run_start run_end split: prod.split)

end
