(* ===== verification/Interleavings.thy ===== *)
theory Interleavings
  imports Transactions Server
begin

text \<open>
  What holds of every interleaving of the statements of theory Transactions: the invariant
  \<open>sessions_ok\<close> relates each transaction in progress to the committed row it has locked. From it follow
  that the history of every machine stays consistent, that the transactions refine the atomic
  presence specification \<open>presence_spec\<close>, and that no call waits for ever.
\<close>

section \<open>A transaction and the row it has locked\<close>

definition online_pending :: "pg \<Rightarrow> world \<Rightarrow> string \<Rightarrow> int \<Rightarrow> machine_row \<Rightarrow> changes \<Rightarrow> bool" where
  "online_pending p w mid t row ch \<longleftrightarrow>
     pg_uuid_in p mid = Some (ch_machine ch) \<and> tb_machines (w_db w) (ch_machine ch) = Some row \<and>
     (\<exists>seen updated. ch_row ch = online_row t seen updated row) \<and>
     (\<exists>j < w_clock w. t = pg_clock p j) \<and> (\<forall>u. m_last_connected_at row = Some u \<longrightarrow> u < t)"

definition offline_pending :: "pg \<Rightarrow> world \<Rightarrow> session \<Rightarrow> machine_row \<Rightarrow> changes \<Rightarrow> bool" where
  "offline_pending p w sess row ch \<longleftrightarrow>
     pg_uuid_in p (sess_machine_id sess) = Some (ch_machine ch) \<and>
     tb_machines (w_db w) (ch_machine ch) = Some row \<and> m_status row = Online \<and>
     m_last_connected_at row = Some (pg_time_in p (sess_connected_at sess)) \<and>
     (\<exists>disconnected updated. ch_row ch = offline_row disconnected updated row)"

definition event_pending :: "world \<Rightarrow> machine_status \<Rightarrow> changes \<Rightarrow> bool" where
  "event_pending w st ch \<longleftrightarrow>
     (\<exists>eid. ch_events ch = [\<lparr>e_id = eid, e_machine_id = ch_machine ch, e_status = st,
                            e_occurred_at = ch_now ch\<rparr>] \<and>
        eid < w_event_seq w \<and> eid \<notin> e_id ` set (tb_events (w_db w)))"

fun txn_ok :: "pg \<Rightarrow> world \<Rightarrow> txn \<Rightarrow> bool" where
  "txn_ok p w (Start_Marked mid t previous ch) =
     (\<exists>row. online_pending p w mid t row ch \<and> previous = m_status row \<and> m_status row \<noteq> Online \<and>
        ch_events ch = [])"
| "txn_ok p w (Start_Logged mid t ch) =
     (\<exists>row. online_pending p w mid t row ch \<and>
        (if m_status row = Online then ch_events ch = [] else event_pending w Online ch))"
| "txn_ok p w (End_Marked sess ch) =
     (\<exists>row. offline_pending p w sess row ch \<and> ch_events ch = [])"
| "txn_ok p w (End_Logged sess ch) =
     (\<exists>row. offline_pending p w sess row ch \<and> event_pending w Offline ch)"
| "txn_ok p w _ = True"

text \<open>The changes a transaction is about to commit.\<close>

fun commits :: "txn \<Rightarrow> changes option" where
  "commits (Start_Logged mid t ch) = Some ch"
| "commits (End_Logged sess ch) = Some ch"
| "commits _ = None"

fun pending_events :: "txn \<Rightarrow> event_row list" where
  "pending_events k = (case commits k of None \<Rightarrow> [] | Some ch \<Rightarrow> ch_events ch)"

lemma pending_stable:
  "online_pending p w mid t row ch \<Longrightarrow> later w w' \<Longrightarrow>
     tb_machines (w_db w') (ch_machine ch) = tb_machines (w_db w) (ch_machine ch) \<Longrightarrow>
     online_pending p w' mid t row ch"
  "offline_pending p w sess row ch \<Longrightarrow>
     tb_machines (w_db w') (ch_machine ch) = tb_machines (w_db w) (ch_machine ch) \<Longrightarrow>
     offline_pending p w' sess row ch"
  "event_pending w st ch \<Longrightarrow> later w w' \<Longrightarrow>
     (\<And>e. e \<in> set (ch_events ch) \<Longrightarrow> e_id e \<notin> e_id ` set (tb_events (w_db w'))) \<Longrightarrow>
     event_pending w' st ch"
  by (fastforce simp: online_pending_def later_def intro: less_le_trans,
      simp add: offline_pending_def, auto simp: event_pending_def later_def)

lemma txn_ok_stable:
  assumes "txn_ok p w k" "later w w'"
    and row: "\<And>m. locked k = Some m \<Longrightarrow> tb_machines (w_db w') m = tb_machines (w_db w) m"
    and ids: "\<And>e. e \<in> set (pending_events k) \<Longrightarrow> e_id e \<notin> e_id ` set (tb_events (w_db w'))"
  shows "txn_ok p w' k"
proof (cases k)
  case (Start_Marked mid t previous ch)
  with assms show ?thesis by (auto intro: pending_stable(1))
next
  case (Start_Logged mid t ch)
  with assms(1) obtain r where r: "online_pending p w mid t r ch"
    "if m_status r = Online then ch_events ch = [] else event_pending w Online ch" by auto
  have "online_pending p w' mid t r ch"
    by (rule pending_stable(1) [OF r(1) assms(2)]) (simp add: row Start_Logged)
  moreover have "if m_status r = Online then ch_events ch = [] else event_pending w' Online ch"
    using r(2) ids pending_stable(3) [OF _ assms(2), of Online ch] Start_Logged by auto
  ultimately show ?thesis by (auto simp: Start_Logged)
next
  case (End_Marked sess ch)
  with assms show ?thesis by (auto intro: pending_stable(2))
next
  case (End_Logged sess ch)
  with assms(1) obtain r where r: "offline_pending p w sess r ch" "event_pending w Offline ch" by auto
  have "offline_pending p w' sess r ch"
    by (rule pending_stable(2) [OF r(1)]) (simp add: row End_Logged)
  moreover have "event_pending w' Offline ch"
    using pending_stable(3) [OF r(2) assms(2)] ids by (simp add: End_Logged)
  ultimately show ?thesis by (auto simp: End_Logged)
qed simp_all

lemma pending_event_ids:
  assumes "txn_ok p w k" "e \<in> set (pending_events k)"
  shows "e_id e < w_event_seq w \<and> e_id e \<notin> e_id ` set (tb_events (w_db w))"
  using assms by (cases k) (auto simp: event_pending_def split: if_splits)

section \<open>The next statement\<close>

lemma commit_tx_cases:
  assumes "commit_tx c (own_tx ch w) w = (r, w')"
  shows "later w w' \<and> (w_db w' = merge_changes ch (w_db w) \<or> r \<noteq> None \<and> w_db w' = w_db w)"
proof -
  have "install c (merge_changes ch (w_db w)) w = (r, w')"
    using assms by (simp add: commit_tx_def own_tx_def)
  from install_cases [OF this] show ?thesis by (auto simp: later_def)
qed

lemma changes_eq:
  "ch_events ch = es \<Longrightarrow>
     ch = \<lparr>ch_now = ch_now ch, ch_machine = ch_machine ch, ch_row = ch_row ch, ch_events = es\<rparr>"
  by (cases ch) simp

text \<open>The insert of the event of a marked row.\<close>

lemma log_pending:
  assumes "insert_event p c (ch_machine ch) st (own_tx ch w) w = (Inr tx, w')" "ch_events ch = []"
    and "\<forall>e \<in> set (tb_events (w_db w)). e_id e < w_event_seq w"
  obtains eid where "eid = w_event_seq w" "w_db w' = w_db w" "later w w'" "w_event_seq w < w_event_seq w'"
    "written (ch_machine ch) tx w' = ch\<lparr>ch_events := [\<lparr>e_id = eid, e_machine_id = ch_machine ch,
       e_status = st, e_occurred_at = ch_now ch\<rparr>]\<rparr>"
    "event_pending w' st (written (ch_machine ch) tx w')"
proof -
  obtain now m row where ch: "ch = \<lparr>ch_now = now, ch_machine = m, ch_row = row, ch_events = []\<rparr>"
    using assms(2) by (cases ch) simp
  from insert_event_Inr [of p c m st now row w tx w'] assms(1)
  have i: "w_db w' = w_db w" "later w w'" "w_event_seq w' = Suc (w_event_seq w)"
    "tx = \<lparr>tx_now = now, tx_tables = add_event \<lparr>e_id = w_event_seq w, e_machine_id = m, e_status = st,
      e_occurred_at = now\<rparr> (set_machine m row (w_db w))\<rparr>"
    by (simp_all add: ch)
  have wr: "written m tx w' = \<lparr>ch_now = now, ch_machine = m, ch_row = row,
      ch_events = [\<lparr>e_id = w_event_seq w, e_machine_id = m, e_status = st, e_occurred_at = now\<rparr>]\<rparr>"
    unfolding i(4) i(1) [symmetric] by (rule written_event)
  show thesis
    by (rule that [of "w_event_seq w"])
       (use i wr assms(3) in \<open>auto simp: ch event_pending_def\<close>)
qed

text \<open>What one statement does: it moves the transaction on and leaves the committed tables alone, or it
  answers and leaves them alone, or it answers after the commit. A fresh event id comes from the
  sequence.\<close>

lemma txn_step_moves:
  assumes "pg_ok p w" "txn_ok p w k" "\<forall>e \<in> set (tb_events (w_db w)). e_id e < w_event_seq w"
    and "txn_step p c k w = (Inr k', w')"
  shows "w_db w' = w_db w \<and> later w w' \<and> txn_ok p w' k' \<and>
    (\<forall>m. locked k = Some m \<longrightarrow> locked k' = Some m) \<and>
    (\<forall>e \<in> set (pending_events k'). e_id e = w_event_seq w \<and> w_event_seq w < w_event_seq w')"
proof (cases k)
  case (Start_Call mid)
  with assms(4) show ?thesis
    by (auto simp: later_def split: prod.splits sum.splits dest!: begin_tx_frame)
next
  case (End_Call sess)
  with assms(4) show ?thesis
    by (auto simp: later_def split: prod.splits sum.splits dest!: begin_tx_frame)
next
  case (Start_Begun mid now)
  with assms(4) obtain t prev tx where o: "mark_online p c mid \<lparr>tx_now = now, tx_tables = w_db w\<rparr> w
      = (Inr (Some ((t, prev), tx)), w')"
    and k': "k' = (if prev \<noteq> Online then Start_Marked mid t prev (written (the (pg_uuid_in p mid)) tx w')
                  else Start_Logged mid t (written (the (pg_uuid_in p mid)) tx w'))"
    by (auto simp: Let_def split: prod.splits sum.splits option.splits if_splits)
  from o show ?thesis
  proof (rule mark_online_Some)
    fix m row seen updated
    assume m: "pg_uuid_in p mid = Some m" "tb_machines (w_db w) m = Some row" "prev = m_status row"
      "t = pg_clock p (w_clock w)" "w_clock w < w_clock w'" "w_db w' = w_db w" "later w w'"
      "tx = \<lparr>tx_now = now, tx_tables = set_machine m (online_row t seen updated row) (w_db w)\<rparr>"
    have wr: "written m tx w' = \<lparr>ch_now = now, ch_machine = m, ch_row = online_row t seen updated row,
        ch_events = []\<rparr>"
      unfolding m(8) m(6) [symmetric] by (rule written_row)
    have "u < t" if "m_last_connected_at row = Some u" for u
      using assms(1) m(2,4) that by (auto simp: pg_ok_def stamps_past_def)
    then have "online_pending p w' mid t row (written m tx w')"
      using m(1,2,4-6) by (auto simp: online_pending_def wr)
    then show ?thesis using m(1,3,6,7) by (auto simp: k' wr Start_Begun)
  qed
next
  case (Start_Marked mid t prev ch)
  with assms(2) obtain row where row: "online_pending p w mid t row ch" "prev = m_status row"
    "m_status row \<noteq> Online" "ch_events ch = []"
    by auto
  with assms(4) Start_Marked obtain tx where i: "insert_event p c (ch_machine ch) Online (own_tx ch w) w
      = (Inr tx, w')" "k' = Start_Logged mid t (written (ch_machine ch) tx w')"
    by (auto simp: record_online_def online_pending_def split: prod.splits sum.splits)
  from i(1) row(4) assms(3) show ?thesis
  proof (rule log_pending)
    fix eid assume l: "eid = w_event_seq w" "w_db w' = w_db w" "later w w'" "w_event_seq w < w_event_seq w'"
      "written (ch_machine ch) tx w' = ch\<lparr>ch_events := [\<lparr>e_id = eid, e_machine_id = ch_machine ch,
        e_status = Online, e_occurred_at = ch_now ch\<rparr>]\<rparr>"
      "event_pending w' Online (written (ch_machine ch) tx w')"
    have "online_pending p w' mid t row (written (ch_machine ch) tx w')"
      using pending_stable(1) [OF row(1) l(3)] l(2) by (simp add: l(5) online_pending_def)
    with l row(3) show ?thesis by (auto simp: i(2) Start_Marked)
  qed
next
  case (End_Begun sess now)
  with assms(4) consider (none) "mark_offline p c sess \<lparr>tx_now = now, tx_tables = w_db w\<rparr> w = (Inr None, w')"
      "k' = End_Unmatched sess now"
    | (row) m tx where "mark_offline p c sess \<lparr>tx_now = now, tx_tables = w_db w\<rparr> w = (Inr (Some (m, tx)), w')"
      "k' = End_Marked sess (written m tx w')"
    by (auto split: prod.splits sum.splits option.splits)
  then show ?thesis
  proof cases
    case none
    with mark_offline_cases [OF none(1)] show ?thesis by (simp add: End_Begun)
  next
    case row
    from row(1) show ?thesis
    proof (rule mark_offline_Some)
      fix r d u
      assume m: "pg_uuid_in p (sess_machine_id sess) = Some m" "tb_machines (w_db w) m = Some r"
        "m_status r = Online" "m_last_connected_at r = Some (pg_time_in p (sess_connected_at sess))"
        "w_db w' = w_db w" "later w w'"
        "tx = \<lparr>tx_now = now, tx_tables = set_machine m (offline_row d u r) (w_db w)\<rparr>"
      have wr: "written m tx w' = \<lparr>ch_now = now, ch_machine = m, ch_row = offline_row d u r,
          ch_events = []\<rparr>"
        unfolding m(7) m(5) [symmetric] by (rule written_row)
      show ?thesis using m(1-6) by (auto simp: row(2) wr End_Begun offline_pending_def)
    qed
  qed
next
  case (End_Marked sess ch)
  with assms(2) obtain row where row: "offline_pending p w sess row ch" "ch_events ch = []" by auto
  from assms(4) End_Marked obtain tx where i: "insert_event p c (ch_machine ch) Offline (own_tx ch w) w
      = (Inr tx, w')" "k' = End_Logged sess (written (ch_machine ch) tx w')"
    by (auto split: prod.splits sum.splits)
  from i(1) row(2) assms(3) show ?thesis
  proof (rule log_pending)
    fix eid assume l: "eid = w_event_seq w" "w_db w' = w_db w" "later w w'" "w_event_seq w < w_event_seq w'"
      "written (ch_machine ch) tx w' = ch\<lparr>ch_events := [\<lparr>e_id = eid, e_machine_id = ch_machine ch,
        e_status = Offline, e_occurred_at = ch_now ch\<rparr>]\<rparr>"
      "event_pending w' Offline (written (ch_machine ch) tx w')"
    have "offline_pending p w' sess row (written (ch_machine ch) tx w')"
      using pending_stable(2) [OF row(1)] l(2) by (simp add: l(5) offline_pending_def)
    with l show ?thesis by (auto simp: i(2) End_Marked)
  qed
qed (use assms(4) in \<open>auto split: prod.splits option.splits\<close>)

lemma txn_step_answers:
  assumes "txn_step p c k w = (Inl a, w')"
  shows "later w w' \<and> (w_db w' = w_db w \<or> (\<exists>ch. commits k = Some ch \<and> w_db w' = merge_changes ch (w_db w)))"
proof (cases k)
  case (Start_Call mid)
  with assms show ?thesis
    by (auto simp: later_def split: prod.splits sum.splits dest!: begin_tx_frame)
next
  case (End_Call sess)
  with assms show ?thesis
    by (auto simp: later_def split: prod.splits sum.splits dest!: begin_tx_frame)
next
  case (Start_Begun mid now)
  with assms show ?thesis
    by (auto simp: Let_def split: prod.splits sum.splits option.splits if_splits dest: mark_online_cases)
next
  case (End_Begun sess now)
  with assms show ?thesis
    by (auto split: prod.splits sum.splits option.splits dest: mark_offline_cases)
next
  case (Start_Marked mid t prev ch)
  with assms show ?thesis
    by (auto simp: record_online_def later_def split: prod.splits sum.splits option.splits if_splits
        dest!: insert_event_cases)
next
  case (End_Marked sess ch)
  with assms show ?thesis
    by (auto simp: later_def split: prod.splits sum.splits dest!: insert_event_cases)
next
  case (Start_Logged mid t ch)
  with assms show ?thesis by (auto split: prod.splits option.splits dest!: commit_tx_cases)
next
  case (End_Logged sess ch)
  with assms show ?thesis by (auto split: prod.splits option.splits dest!: commit_tx_cases)
next
  case (End_Unmatched sess now)
  with assms show ?thesis
    by (auto simp: commit_tx_def later_def split: prod.splits option.splits dest!: install_cases)
qed

section \<open>A commit\<close>

lemma merge_changes_frames [frame]:
  "tb_events (merge_changes ch tb) = tb_events tb @ ch_events ch"
  "tb_machines (merge_changes ch tb) = (tb_machines tb)(ch_machine ch \<mapsto> ch_row ch)"
  "tb_identities (merge_changes ch tb) = tb_identities tb"
  "tb_samples (merge_changes ch tb) = tb_samples tb"
proof -
  have "tb_events (fold add_event es tb) = tb_events tb @ es \<and>
      tb_machines (fold add_event es tb) = tb_machines tb \<and>
      tb_identities (fold add_event es tb) = tb_identities tb \<and>
      tb_samples (fold add_event es tb) = tb_samples tb" for es and tb :: tables
    by (induction es arbitrary: tb) (simp_all add: add_event_def)
  then show "tb_events (merge_changes ch tb) = tb_events tb @ ch_events ch"
    "tb_machines (merge_changes ch tb) = (tb_machines tb)(ch_machine ch \<mapsto> ch_row ch)"
    "tb_identities (merge_changes ch tb) = tb_identities tb"
    "tb_samples (merge_changes ch tb) = tb_samples tb"
    by (simp_all add: merge_changes_def set_machine_def)
qed

lemma start_committed:
  assumes "world_ok p w" "txn_ok p w (Start_Logged mid t ch)" "w_db w' = merge_changes ch (w_db w)"
  obtains eid j where "pg_uuid_in p mid = Some (ch_machine ch)" "t = pg_clock p j" "j < w_clock w"
    "newer_stamp (ch_machine ch) t (pg_view w)" "eid \<notin> e_id ` set (tb_events (w_db w))"
    "session_started (ch_machine ch) t eid (w_db w) (w_db w')"
proof -
  from assms(2) obtain row where row: "online_pending p w mid t row ch"
    and ev: "if m_status row = Online then ch_events ch = [] else event_pending w Online ch" by auto
  from row obtain seen updated j where r: "pg_uuid_in p mid = Some (ch_machine ch)"
    "tb_machines (w_db w) (ch_machine ch) = Some row" "ch_row ch = online_row t seen updated row"
    "t = pg_clock p j" "j < w_clock w" "\<forall>u. m_last_connected_at row = Some u \<longrightarrow> u < t"
    by (auto simp: online_pending_def)
  have newer: "newer_stamp (ch_machine ch) t (pg_view w)"
    using r(2,6) by (auto simp: newer_stamp_def pg_view_def)
  show thesis
  proof (cases "m_status row = Online")
    case True
    with ev have "ch_events ch = []" by simp
    then have "w_db w' = set_machine (ch_machine ch) (online_row t seen updated row) (w_db w)"
      by (simp add: assms(3) merge_changes_def r(3))
    with True r(2) show thesis
      by (intro that [OF r(1,4,5) newer unused_event_id [OF assms(1)]])
         (auto simp: session_started_def)
  next
    case False
    with ev obtain eid where e: "ch_events ch = [\<lparr>e_id = eid, e_machine_id = ch_machine ch,
        e_status = Online, e_occurred_at = ch_now ch\<rparr>]" "eid \<notin> e_id ` set (tb_events (w_db w))"
      by (auto simp: event_pending_def)
    have "w_db w' = add_event \<lparr>e_id = eid, e_machine_id = ch_machine ch, e_status = Online,
        e_occurred_at = ch_now ch\<rparr> (set_machine (ch_machine ch) (online_row t seen updated row) (w_db w))"
      by (simp add: assms(3) merge_changes_def r(3) e(1))
    with False r(2) show thesis
      by (intro that [OF r(1,4,5) newer e(2)]) (auto simp: session_started_def)
  qed
qed

lemma end_committed:
  assumes "txn_ok p w (End_Logged sess ch)" "w_db w' = merge_changes ch (w_db w)"
  obtains eid where "pg_uuid_in p (sess_machine_id sess) = Some (ch_machine ch)"
    "eid \<notin> e_id ` set (tb_events (w_db w))"
    "session_ended (ch_machine ch) (pg_time_in p (sess_connected_at sess)) eid (w_db w) (w_db w')"
proof -
  from assms(1) obtain row where row: "offline_pending p w sess row ch" and ev: "event_pending w Offline ch"
    by auto
  from row obtain d u where r: "pg_uuid_in p (sess_machine_id sess) = Some (ch_machine ch)"
    "tb_machines (w_db w) (ch_machine ch) = Some row" "ch_row ch = offline_row d u row"
    "m_status row = Online" "m_last_connected_at row = Some (pg_time_in p (sess_connected_at sess))"
    by (auto simp: offline_pending_def)
  from ev obtain eid where e: "ch_events ch = [\<lparr>e_id = eid, e_machine_id = ch_machine ch,
      e_status = Offline, e_occurred_at = ch_now ch\<rparr>]" "eid \<notin> e_id ` set (tb_events (w_db w))"
    by (auto simp: event_pending_def)
  have "w_db w' = add_event \<lparr>e_id = eid, e_machine_id = ch_machine ch, e_status = Offline,
      e_occurred_at = ch_now ch\<rparr> (set_machine (ch_machine ch) (offline_row d u row) (w_db w))"
    by (simp add: assms(2) merge_changes_def r(3) e(1))
  with r(2,4,5) show thesis by (intro that [OF r(1) e(2)]) (auto simp: session_ended_def)
qed

text \<open>What a commit makes of the invariants of the atomic model.\<close>

lemma commit_keeps:
  assumes "pg_ok p w" "world_ok p w" "txn_ok p w k" "commits k = Some ch"
    and "w_db w' = merge_changes ch (w_db w)" "later w w'"
  shows "pg_ok p w' \<and> world_ok p w'"
proof -
  have "\<forall>e \<in> set (ch_events ch). e_id e < w_event_seq w"
    using pending_event_ids [OF assms(3)] assms(4) by auto
  with assms(2,5,6) have ids: "\<forall>e \<in> set (tb_events (w_db w')). e_id e < w_event_seq w'"
    by (fastforce simp: world_ok_def later_def frame)
  have schema: "schema_ok p (w_db w)" using assms(2) by (simp add: world_ok_def)
  consider (start) mid t where "k = Start_Logged mid t ch" | (stop) sess where "k = End_Logged sess ch"
    using assms(4) by (cases k) auto
  then show ?thesis
  proof cases
    case start
    from assms(3) [unfolded start] obtain eid j where s: "t = pg_clock p j" "j < w_clock w"
      "eid \<notin> e_id ` set (tb_events (w_db w))" "session_started (ch_machine ch) t eid (w_db w) (w_db w')"
      using start_committed [OF assms(2) _ assms(5)] by metis
    have "j < w_clock w'" using s(2) assms(6) by (simp add: later_def)
    with pg_view_started [OF s(4)] s(1) have "pg_ok p w'"
      by (intro pg_ok_later [OF assms(1,6)]) blast
    with ids schema_ok_started [OF schema s(4,3)] show ?thesis by (simp add: world_ok_def)
  next
    case stop
    from assms(3) [unfolded stop] obtain eid where s: "eid \<notin> e_id ` set (tb_events (w_db w))"
      "session_ended (ch_machine ch) (pg_time_in p (sess_connected_at sess)) eid (w_db w) (w_db w')"
      using end_committed [OF _ assms(5)] by metis
    have "pg_ok p w'"
      using pg_view_ended [OF s(2)] by (intro pg_ok_later [OF assms(1,6)]) blast
    with ids schema_ok_ended [OF schema s(2,1)] show ?thesis by (simp add: world_ok_def)
  qed
qed

section \<open>The invariant of every interleaving\<close>

fun sessions_ok :: "pg \<Rightarrow> sessions \<Rightarrow> bool" where
  "sessions_ok p (ts, ls, w) \<longleftrightarrow>
     pg_ok p w \<and> world_ok p w \<and>
     (\<forall>n k. ts n = Some k \<longrightarrow> txn_ok p w k) \<and>
     (\<forall>m n. ls m = Some n \<longleftrightarrow> (\<exists>k. ts n = Some k \<and> locked k = Some m)) \<and>
     (\<forall>n k n' k'. ts n = Some k \<longrightarrow> ts n' = Some k' \<longrightarrow> n \<noteq> n' \<longrightarrow>
        e_id ` set (pending_events k) \<inter> e_id ` set (pending_events k') = {})"

lemma sessions_okI:
  assumes "pg_ok p w" "world_ok p w" "\<And>n k. ts n = Some k \<Longrightarrow> txn_ok p w k"
    and "\<And>m n. ls m = Some n \<longleftrightarrow> (\<exists>k. ts n = Some k \<and> locked k = Some m)"
    and "\<And>n k n' k'. ts n = Some k \<Longrightarrow> ts n' = Some k' \<Longrightarrow> n \<noteq> n' \<Longrightarrow>
        e_id ` set (pending_events k) \<inter> e_id ` set (pending_events k') = {}"
  shows "sessions_ok p (ts, ls, w)"
  using assms by simp

lemma sessions_okD:
  assumes "sessions_ok p (ts, ls, w)"
  shows "pg_ok p w" "world_ok p w" "ts n = Some k \<Longrightarrow> txn_ok p w k"
    "ls m = Some n \<longleftrightarrow> (\<exists>k. ts n = Some k \<and> locked k = Some m)"
    "ts n = Some k \<Longrightarrow> ts n' = Some k' \<Longrightarrow> n \<noteq> n' \<Longrightarrow>
        e_id ` set (pending_events k) \<inter> e_id ` set (pending_events k') = {}"
    "\<forall>e \<in> set (tb_events (w_db w)). e_id e < w_event_seq w"
  using assms by (simp_all add: world_ok_def)

declare sessions_ok.simps [simp del] pending_events.simps [simp del]

text \<open>A row lock excludes: two transactions never have the same row.\<close>

lemma lock_exclusive:
  assumes "sessions_ok p (ts, ls, w)" "ts n = Some k" "ts n' = Some k'" "locked k = Some m" "locked k' = Some m"
  shows "n = n'"
  using assms(2-) sessions_okD(4) [OF assms(1), of m n] sessions_okD(4) [OF assms(1), of m n'] by simp

text \<open>\<open>advance\<close> as cases.\<close>

lemma advance_cases:
  assumes "advance p c n (ts, ls, w) = Some (a, y)"
  obtains (moved) k k' w' ls' where "ts n = Some k" "txn_step p c k w = (Inr k', w')" "a = None"
      "y = (ts(n \<mapsto> k'), ls', w')"
      "case locked k' of None \<Rightarrow> ls' = ls | Some m \<Rightarrow> (ls m = None \<or> ls m = Some n) \<and> ls' = ls(m \<mapsto> n)"
  | (answered) k r w' where "ts n = Some k" "txn_step p c k w = (Inl r, w')" "a = Some r"
      "y = (ts(n := None), case locked k of None \<Rightarrow> ls | Some m \<Rightarrow> ls(m := None), w')"
  using assms that by (auto split: option.splits prod.splits sum.splits if_splits)

lemma moved_ok:
  assumes ok: "sessions_ok p (ts, ls, w)" and n: "ts n = Some k" "txn_step p c k w = (Inr k', w')"
    and ls': "case locked k' of None \<Rightarrow> ls' = ls | Some m \<Rightarrow> (ls m = None \<or> ls m = Some n) \<and> ls' = ls(m \<mapsto> n)"
  shows "sessions_ok p (ts(n \<mapsto> k'), ls', w')"
proof -
  note D = sessions_okD [OF ok]
  note step = txn_step_moves [OF D(1) D(3) [OF n(1)] D(6) n(2)]
  have view: "pg_view w' = pg_view w" using step by (intro pg_view_db) simp
  show ?thesis
  proof (rule sessions_okI)
    show "pg_ok p w'" using step view by (intro pg_ok_later [OF D(1)]) simp_all
    show "world_ok p w'" using step by (intro world_ok_same [OF D(2)]) (simp_all add: later_def)
  next
    fix i x assume x: "(ts(n \<mapsto> k')) i = Some x"
    show "txn_ok p w' x"
    proof (cases "i = n")
      case True
      with x step show ?thesis by simp
    next
      case False
      with x have x: "ts i = Some x" by simp
      show ?thesis
        by (rule txn_ok_stable [OF D(3) [OF x]])
           (use step pending_event_ids [OF D(3) [OF x]] in simp_all)
    qed
  next
    fix m i
    show "ls' m = Some i \<longleftrightarrow> (\<exists>x. (ts(n \<mapsto> k')) i = Some x \<and> locked x = Some m)"
    proof (cases "locked k'")
      case None
      with step have "locked k = None" by (cases "locked k") auto
      with None ls' D(4) [of m i] n(1) show ?thesis by auto
    next
      case (Some m')
      with ls' have l: "ls m' = None \<or> ls m' = Some n" "ls' = ls(m' \<mapsto> n)" by simp_all
      have "locked k = None \<or> locked k = Some m'"
        using step Some by (cases "locked k") auto
      with l Some D(4) [of m i] D(4) [of m' i] n(1) show ?thesis by auto
    qed
  next
    fix i x j y
    assume xy: "(ts(n \<mapsto> k')) i = Some x" "(ts(n \<mapsto> k')) j = Some y" "i \<noteq> j"
    have new: "e_id ` set (pending_events k') \<inter> e_id ` set (pending_events z) = {}"
      if "ts j = Some z" "j \<noteq> n" for j z
      using step pending_event_ids [OF D(3) [OF that(1)]] by fastforce
    show "e_id ` set (pending_events x) \<inter> e_id ` set (pending_events y) = {}"
    proof (cases "i = n")
      case True
      with xy new [of j y] show ?thesis by simp
    next
      case i: False
      show ?thesis
      proof (cases "j = n")
        case True
        with xy i new [of i x] show ?thesis by (simp add: Int_commute)
      next
        case False
        with xy i D(5) [of i x j y] show ?thesis by simp
      qed
    qed
  qed
qed

lemma answered_ok:
  assumes ok: "sessions_ok p (ts, ls, w)" and n: "ts n = Some k" "txn_step p c k w = (Inl r, w')"
  shows "sessions_ok p (ts(n := None), case locked k of None \<Rightarrow> ls | Some m \<Rightarrow> ls(m := None), w')"
proof -
  note D = sessions_okD [OF ok]
  note ans = txn_step_answers [OF n(2)]
  have world: "pg_ok p w' \<and> world_ok p w'"
  proof (cases "w_db w' = w_db w")
    case True
    have "pg_ok p w'" using ans pg_view_db [OF True] by (intro pg_ok_later [OF D(1)]) simp_all
    moreover have "world_ok p w'" using ans by (intro world_ok_same [OF D(2) True]) (simp add: later_def)
    ultimately show ?thesis by simp
  next
    case False
    with ans obtain ch where "commits k = Some ch" "w_db w' = merge_changes ch (w_db w)" by blast
    with ans show ?thesis by (intro commit_keeps [OF D(1,2) D(3) [OF n(1)]]) simp_all
  qed
  show ?thesis
  proof (rule sessions_okI)
    fix i x assume x: "(ts(n := None)) i = Some x"
    then have i: "ts i = Some x" "i \<noteq> n" by (auto split: if_splits)
    have other: "locked x = Some m \<Longrightarrow> locked k \<noteq> Some m" for m
      using lock_exclusive [OF ok i(1) n(1)] i(2) by blast
    note ids = pending_event_ids [OF D(3) [OF i(1)]]
    show "txn_ok p w' x"
    proof (rule txn_ok_stable [OF D(3) [OF i(1)]])
      show "later w w'" using ans by simp
      show "tb_machines (w_db w') m = tb_machines (w_db w) m" if "locked x = Some m" for m
        using ans other [OF that] by (cases k) (auto simp: frame)
      show "e_id e \<notin> e_id ` set (tb_events (w_db w'))" if "e \<in> set (pending_events x)" for e
      proof (cases "w_db w' = w_db w")
        case True
        with ids [OF that] show ?thesis by simp
      next
        case False
        with ans obtain ch where ch: "commits k = Some ch" "w_db w' = merge_changes ch (w_db w)" by blast
        then have "e_id e \<notin> e_id ` set (ch_events ch)"
          using D(5) [OF i(1) n(1) i(2)] that by (auto simp: pending_events.simps [of k])
        with ids [OF that] show ?thesis by (simp add: ch(2) frame image_Un)
      qed
    qed
  next
    fix m i
    show "(case locked k of None \<Rightarrow> ls | Some m \<Rightarrow> ls(m := None)) m = Some i
        \<longleftrightarrow> (\<exists>x. (ts(n := None)) i = Some x \<and> locked x = Some m)"
    proof (cases "i = n")
      case True
      with D(4) [of m n] n(1) show ?thesis by (auto split: option.split)
    next
      case False
      then have "locked k \<noteq> Some m" if "ts i = Some x" "locked x = Some m" for x
        using lock_exclusive [OF ok that(1) n(1) that(2)] by blast
      with False D(4) [of m i] show ?thesis by (auto split: option.split)
    qed
  next
    fix i x j y assume "(ts(n := None)) i = Some x" "(ts(n := None)) j = Some y" "i \<noteq> j"
    then show "e_id ` set (pending_events x) \<inter> e_id ` set (pending_events y) = {}"
      using D(5) [of i x j y] by (simp split: if_splits)
  qed (use world in simp_all)
qed

lemma plain_call_store: "plain_call p w w' \<Longrightarrow> store_step p w w'"
  by (induction rule: plain_call.induct) (auto intro: store_step.intros)

text \<open>The single-statement calls write no event and change no connection of a known machine.\<close>

lemma plain_call_effect:
  assumes "plain_call p w w'"
  shows "later w w' \<and> tb_events (w_db w') = tb_events (w_db w) \<and>
    (pg_view w' = pg_view w \<or> (\<exists>m. pg_view w m = None \<and> pg_view w' = (pg_view w)(m \<mapsto> (False, None))))"
  using assms
proof cases
  case (call_enroll c se r1)
  note e = pg_enroll_cases [OF call_enroll]
  then have "tb_events (w_db w') = tb_events (w_db w)" by (auto simp: same_events)
  moreover have "pg_view w' = pg_view w \<or>
      (\<exists>m. pg_view w m = None \<and> pg_view w' = (pg_view w)(m \<mapsto> (False, None)))"
    using e pg_view_db [of w' w] by (auto dest: pg_view_enrolled)
  ultimately show ?thesis using e by (simp add: later_def)
next
  case (call_find c a r2)
  then show ?thesis using pg_find_frame [OF call_find] pg_view_db [of w' w] by (simp add: later_def)
next
  case (call_touch c sess r4)
  then show ?thesis
    using pg_touch_cases [OF call_touch] pg_view_db [of w' w]
    by (auto simp: same_events dest: pg_view_touch)
next
  case (call_record c smp r6)
  then show ?thesis
    using pg_record_cases [OF call_record] pg_view_record [OF call_record]
    by (auto simp: later_def same_events)
qed

lemma plain_ok:
  assumes ok: "sessions_ok p (ts, ls, w)" and pl: "plain_call p w w'" "locks_kept ls w w'"
  shows "sessions_ok p (ts, ls, w')"
proof -
  note D = sessions_okD [OF ok]
  note e = plain_call_effect [OF pl(1)]
  show ?thesis
  proof (rule sessions_okI)
    show "pg_ok p w'"
      by (rule pg_ok_view [OF D(1)]) (use e in \<open>auto simp: later_def split: if_splits\<close>)
    show "world_ok p w'" by (rule store_step_world_ok [OF plain_call_store [OF pl(1)] D(2)])
  next
    fix n k assume n: "ts n = Some k"
    show "txn_ok p w' k"
    proof (rule txn_ok_stable [OF D(3) [OF n]])
      show "tb_machines (w_db w') m = tb_machines (w_db w) m" if "locked k = Some m" for m
        using D(4) [of m n] n that pl(2) by (auto simp: locks_kept_def)
    qed (use e pending_event_ids [OF D(3) [OF n]] in simp_all)
  qed (use D(4,5) in auto)
qed

lemma called_ok:
  assumes ok: "sessions_ok p (ts, ls, w)" and n: "ts n = None"
    and k: "txn_ok p w k" "locked k = None" "commits k = None"
  shows "sessions_ok p (ts(n \<mapsto> k), ls, w)"
proof -
  note D = sessions_okD [OF ok]
  have none: "pending_events k = []" by (simp add: pending_events.simps k(3))
  show ?thesis
  proof (rule sessions_okI)
    fix m i
    show "ls m = Some i \<longleftrightarrow> (\<exists>x. (ts(n \<mapsto> k)) i = Some x \<and> locked x = Some m)"
      using D(4) [of m i] n k(2) by (cases "i = n") auto
  next
    fix i x j y assume xy: "(ts(n \<mapsto> k)) i = Some x" "(ts(n \<mapsto> k)) j = Some y" "i \<noteq> j"
    then show "e_id ` set (pending_events x) \<inter> e_id ` set (pending_events y) = {}"
      using D(5) [of i x j y] none by (cases "i = n"; cases "j = n") auto
  next
    fix i x assume "(ts(n \<mapsto> k)) i = Some x"
    then show "txn_ok p w x" using D(3) [of i x] k(1) by (cases "i = n") simp_all
  qed (use D(1,2) in simp_all)
qed

lemma sessions_step_ok:
  assumes "sessions_step p x y" "sessions_ok p x"
  shows "sessions_ok p y"
  using assms
proof (induction rule: sessions_step.induct)
  case (start_call ts n ls w mid)
  then show ?case by (intro called_ok) simp_all
next
  case (end_call ts n ls w sess)
  then show ?case by (intro called_ok) simp_all
next
  case (statement c n x a y)
  obtain ts ls w where x: "x = (ts, ls, w)" by (cases x)
  note ok = statement(2) [unfolded x]
  from statement(1) [unfolded x] show ?case
  proof (cases rule: advance_cases)
    case (moved k k' w' ls')
    show ?thesis unfolding moved(4) by (rule moved_ok [OF ok moved(1,2,5)])
  next
    case (answered k r w')
    show ?thesis unfolding answered(4) by (rule answered_ok [OF ok answered(1,2)])
  qed
next
  case (plain w w' ls ts)
  then show ?case by (blast intro: plain_ok)
next
  case (crash ts ls w)
  from sessions_okD(1,2) [OF crash] show ?case by (intro sessions_okI) simp_all
qed

lemma sessions_reachable_ok:
  assumes "sessions_reachable p x" "pg_lawful p"
  shows "sessions_ok p x"
  using assms
proof (induction rule: sessions_reachable.induct)
  case (nothing_yet fs)
  then have "pg_ok p (empty_world fs)"
    by (simp add: pg_ok_def stamps_past_def empty_world_def empty_tables_def)
  then show ?case by (simp add: sessions_ok.simps world_ok_empty)
next
  case (one_more x y)
  then show ?case by (blast intro: sessions_step_ok)
qed

section \<open>The presence specification\<close>

text \<open>
  What the session store promises, in atomic steps on the view of the machines and on the log of
  each: a start with a newer stamp, the end of the current session, a new machine.
\<close>

type_synonym presence_state = "uuid view \<times> (uuid \<Rightarrow> machine_status list)"

inductive presence_spec :: "presence_state \<Rightarrow> presence_state \<Rightarrow> bool" where
  spec_start: "v m = Some (b, u) \<Longrightarrow> newer_stamp m t v \<Longrightarrow>
    presence_spec (v, l) (started m t v, l(m := l m @ (if b then [] else [Online])))"
| spec_end: "v m = Some (True, Some t) \<Longrightarrow>
    presence_spec (v, l) (ended m t v, l(m := l m @ [Offline]))"
| spec_new: "v m = None \<Longrightarrow> presence_spec (v, l) (v(m \<mapsto> (False, None)), l)"

definition presence_of :: "sessions \<Rightarrow> presence_state" where
  "presence_of = (\<lambda>(ts, ls, w). (pg_view w, machine_log (w_db w)))"

lemma presence_of_simps [simp]: "presence_of (ts, ls, w) = (pg_view w, machine_log (w_db w))"
  by (simp add: presence_of_def)

lemma spec_started:
  assumes "session_started m t eid (w_db w) (w_db w')" "newer_stamp m t (pg_view w)"
  shows "presence_spec (pg_view w, machine_log (w_db w)) (pg_view w', machine_log (w_db w'))"
proof -
  from assms(1) obtain row seen updated now where row: "tb_machines (w_db w) m = Some row"
    and db: "w_db w' = (let tb1 = set_machine m (online_row t seen updated row) (w_db w)
               in if m_status row = Online then tb1
                  else add_event \<lparr>e_id = eid, e_machine_id = m, e_status = Online,
                                  e_occurred_at = now\<rparr> tb1)"
    unfolding session_started_def by blast
  have "machine_log (w_db w') = (machine_log (w_db w))(m := machine_log (w_db w) m @
      (if m_status row = Online then [] else [Online]))"
    by (simp add: db Let_def fun_eq_iff)
  moreover have "pg_view w m = Some (m_status row = Online, m_last_connected_at row)"
    by (simp add: pg_view_def row)
  ultimately show ?thesis
    using spec_start [OF _ assms(2)] pg_view_started [OF assms(1)] by simp
qed

lemma spec_ended:
  assumes "session_ended m t eid (w_db w) (w_db w')"
  shows "presence_spec (pg_view w, machine_log (w_db w)) (pg_view w', machine_log (w_db w'))"
proof -
  have "machine_log (w_db w') = (machine_log (w_db w))(m := machine_log (w_db w) m @ [Offline])"
    using assms by (auto simp: session_ended_def fun_eq_iff)
  moreover have "pg_view w m = Some (True, Some t)"
    using assms by (auto simp: session_ended_def pg_view_def)
  ultimately show ?thesis
    using spec_end [of "pg_view w" m t] pg_view_ended [OF assms] by simp
qed

lemma commit_spec:
  assumes "world_ok p w" "txn_ok p w k" "commits k = Some ch" "w_db w' = merge_changes ch (w_db w)"
  shows "presence_spec (pg_view w, machine_log (w_db w)) (pg_view w', machine_log (w_db w'))"
proof -
  consider (start) mid t where "k = Start_Logged mid t ch" | (stop) sess where "k = End_Logged sess ch"
    using assms(3) by (cases k) auto
  then show ?thesis
  proof cases
    case start
    from start_committed [OF assms(1) assms(2) [unfolded start] assms(4)]
    show ?thesis by (metis spec_started)
  next
    case stop
    from end_committed [OF assms(2) [unfolded stop] assms(4)] show ?thesis by (metis spec_ended)
  qed
qed

text \<open>Each step of an interleaving is one atomic step of the specification or none.\<close>

lemma sessions_step_refines:
  assumes "sessions_step p x y" "sessions_ok p x"
  shows "presence_of y = presence_of x \<or> presence_spec (presence_of x) (presence_of y)"
  using assms
proof (induction rule: sessions_step.induct)
  case (statement c n x a y)
  obtain ts ls w where x: "x = (ts, ls, w)" by (cases x)
  note D = sessions_okD [OF statement(2) [unfolded x]]
  from statement(1) [unfolded x] show ?case
  proof (cases rule: advance_cases)
    case (moved k k' w' ls')
    then have "w_db w' = w_db w" using txn_step_moves [OF D(1) D(3) D(6)] by blast
    then show ?thesis by (simp add: x moved(4) pg_view_def)
  next
    case (answered k r w')
    from txn_step_answers [OF answered(2)] consider "w_db w' = w_db w"
      | ch where "commits k = Some ch" "w_db w' = merge_changes ch (w_db w)"
      by blast
    then show ?thesis
    proof cases
      case 1
      then show ?thesis by (simp add: x answered(4) pg_view_def)
    next
      case 2
      from commit_spec [OF D(2) D(3) [OF answered(1)] 2] show ?thesis by (simp add: x answered(4))
    qed
  qed
next
  case (plain w w' ls ts)
  note e = plain_call_effect [OF plain(1)]
  then have "machine_log (w_db w') = machine_log (w_db w)" by (intro machine_log_events) simp
  with e show ?case using spec_new by auto
qed simp_all

text \<open>Forward simulation: what holds step by step holds of runs.\<close>

locale forward_simulation =
  fixes concrete :: "'s \<Rightarrow> 's \<Rightarrow> bool"
    and abstract :: "'a \<Rightarrow> 'a \<Rightarrow> bool"
    and abs :: "'s \<Rightarrow> 'a"
    and inv :: "'s \<Rightarrow> bool"
  assumes inv_step: "inv s \<Longrightarrow> concrete s s' \<Longrightarrow> inv s'"
    and sim_step: "inv s \<Longrightarrow> concrete s s' \<Longrightarrow> abs s' = abs s \<or> abstract (abs s) (abs s')"
begin

lemma simulates:
  assumes "concrete\<^sup>*\<^sup>* s s'" "inv s"
  shows "inv s' \<and> abstract\<^sup>*\<^sup>* (abs s) (abs s')"
  using assms
proof (induction rule: rtranclp_induct)
  case (step s' s'')
  then have "inv s'" "abstract\<^sup>*\<^sup>* (abs s) (abs s')" by simp_all
  moreover from sim_step [OF this(1) step(2)] have "abstract\<^sup>*\<^sup>* (abs s') (abs s'')"
    by (auto simp: r_into_rtranclp)
  ultimately show ?case using inv_step [OF _ step(2)] by (meson rtranclp_trans)
qed simp

end

interpretation session_refinement: forward_simulation "sessions_step p" presence_spec presence_of
  "sessions_ok p" for p
  by unfold_locales (auto dest: sessions_step_ok sessions_step_refines)

text \<open>The calls in one piece refine the same specification.\<close>

lemma store_step_refines:
  assumes "store_step p w w'" "pg_ok p w \<and> world_ok p w"
  shows "(pg_ok p w' \<and> world_ok p w') \<and>
    ((pg_view w', machine_log (w_db w')) = (pg_view w, machine_log (w_db w)) \<or>
     presence_spec (pg_view w, machine_log (w_db w)) (pg_view w', machine_log (w_db w')))"
proof -
  note ok = conjunct1 [OF assms(2)] and wok = conjunct2 [OF assms(2)]
  have world: "world_ok p w'" by (rule store_step_world_ok [OF assms(1) wok])
  have quiet: ?thesis if "w_db w' = w_db w" "later w w'"
    using pg_ok_later [OF ok that(2)] world that(1) by (simp add: pg_view_def)
  have plain: ?thesis if "plain_call p w w'"
  proof -
    note e = plain_call_effect [OF that]
    have "pg_ok p w'" by (rule pg_ok_view [OF ok]) (use e in \<open>auto simp: later_def split: if_splits\<close>)
    moreover have "machine_log (w_db w') = machine_log (w_db w)" using e by (intro machine_log_events) simp
    ultimately show ?thesis using world e spec_new by auto
  qed
  from assms(1) show ?thesis
  proof cases
    case (step_start c mid r)
    note s = pg_start_cases [OF step_start]
    show ?thesis
    proof (cases "w_db w' = w_db w")
      case False
      with s obtain m where m: "session_started m (pg_clock p (Suc (w_clock w))) (w_event_seq w) (w_db w) (w_db w')"
        "Suc (w_clock w) < w_clock w'" by blast
      have "newer_stamp m (pg_clock p (Suc (w_clock w))) (pg_view w)"
        by (rule fresh_newer [OF stamps_past_fresh [OF ok]]) simp
      from spec_started [OF m(1) this] pg_store.start_ok [OF ok] step_start world show ?thesis by simp
    qed (use quiet s in simp)
  next
    case (step_end c sess r)
    note s = pg_end_cases [OF step_end]
    show ?thesis
    proof (cases "w_db w' = w_db w")
      case False
      with s obtain m t where "session_ended m t (w_event_seq w) (w_db w) (w_db w')"
        by (auto split: if_splits)
      from spec_ended [OF this] pg_store.end_ok [OF ok] step_end world show ?thesis by simp
    qed (use quiet s in simp)
  qed (rule plain, erule plain_call.intros)+
qed

interpretation store_refinement: forward_simulation "store_step p" presence_spec
  "\<lambda>w. (pg_view w, machine_log (w_db w))" "\<lambda>w. pg_ok p w \<and> world_ok p w" for p
  by unfold_locales (use store_step_refines in blast)+

text \<open>What the specification guarantees of a log, on its own: it alternates, and the machine is online
  exactly when the last entry is \<open>online\<close>.\<close>

inductive_cases presence_specE: "presence_spec (v, l) (v', l')"

definition log_ok :: "presence_state \<Rightarrow> bool" where
  "log_ok = (\<lambda>(v, l). \<forall>m. alternates (l m) \<and> ((\<exists>t. v m = Some (True, t)) \<longleftrightarrow> odd (length (l m))))"

lemma presence_spec_log: "presence_spec x y \<Longrightarrow> log_ok x \<Longrightarrow> log_ok y"
proof (induction rule: presence_spec.induct)
  case (spec_start v m b u t l)
  from spec_start(3) have "alternates (l i)" "(\<exists>t. v i = Some (True, t)) \<longleftrightarrow> odd (length (l i))" for i
    by (auto simp: log_ok_def)
  moreover from this(2) [of m] spec_start(1) have "b \<longleftrightarrow> odd (length (l m))" by auto
  ultimately show ?case by (auto simp: log_ok_def started_def alternates_snoc)
next
  case (spec_end v m t l)
  from spec_end(2) have "alternates (l i)" "(\<exists>t. v i = Some (True, t)) \<longleftrightarrow> odd (length (l i))" for i
    by (auto simp: log_ok_def)
  moreover from this(2) [of m] spec_end(1) have "odd (length (l m))" by auto
  ultimately show ?case using spec_end(1) by (auto simp: log_ok_def ended_def alternates_snoc)
next
  case (spec_new v m l)
  from spec_new(2) have "alternates (l i)" "(\<exists>t. v i = Some (True, t)) \<longleftrightarrow> odd (length (l i))" for i
    by (auto simp: log_ok_def)
  moreover from this(2) [of m] spec_new(1) have "even (length (l m))" by simp
  ultimately show ?case by (auto simp: log_ok_def)
qed

lemma presence_spec_logs: "presence_spec\<^sup>*\<^sup>* (Map.empty, \<lambda>_. []) y \<Longrightarrow> log_ok y"
proof (induction rule: rtranclp_induct)
  case base
  show ?case by (simp add: log_ok_def alternates_def)
next
  case (step y z)
  from step(2,3) show ?case by (rule presence_spec_log)
qed

lemma sessions_reachable_run:
  "sessions_reachable p x \<Longrightarrow> \<exists>fs. (sessions_step p)\<^sup>*\<^sup>* (\<lambda>_. None, \<lambda>_. None, empty_world fs) x"
  by (induction rule: sessions_reachable.induct) (auto intro: rtranclp.rtrancl_into_rtrancl)

lemma sessions_spec_run:
  assumes "pg_lawful p" "sessions_reachable p (ts, ls, w)"
  shows "presence_spec\<^sup>*\<^sup>* (Map.empty, \<lambda>_. []) (pg_view w, machine_log (w_db w))"
proof -
  obtain fs where run: "(sessions_step p)\<^sup>*\<^sup>* (\<lambda>_. None, \<lambda>_. None, empty_world fs) (ts, ls, w)"
    using sessions_reachable_run [OF assms(2)] by blast
  have init: "sessions_ok p (\<lambda>_. None, \<lambda>_. None, empty_world fs)"
    by (rule sessions_reachable_ok [OF nothing_yet assms(1)])
  have "presence_of (\<lambda>_. None, \<lambda>_. None, empty_world fs) = (Map.empty, \<lambda>_. [])"
    by (simp add: pg_view_def machine_log_def empty_world_def empty_tables_def fun_eq_iff)
  with session_refinement.simulates [OF run init] show ?thesis by simp
qed

section \<open>Waiting for locks\<close>

text \<open>The row the statements of a call want.\<close>

fun target :: "pg \<Rightarrow> txn \<Rightarrow> uuid option" where
  "target p (Start_Call mid) = pg_uuid_in p mid"
| "target p (Start_Begun mid now) = pg_uuid_in p mid"
| "target p (Start_Marked mid t previous ch) = pg_uuid_in p mid"
| "target p (Start_Logged mid t ch) = pg_uuid_in p mid"
| "target p (End_Call sess) = pg_uuid_in p (sess_machine_id sess)"
| "target p (End_Begun sess now) = pg_uuid_in p (sess_machine_id sess)"
| "target p (End_Unmatched sess now) = pg_uuid_in p (sess_machine_id sess)"
| "target p (End_Marked sess ch) = pg_uuid_in p (sess_machine_id sess)"
| "target p (End_Logged sess ch) = pg_uuid_in p (sess_machine_id sess)"

lemma target_kept: "txn_step p c k w = (Inr k', w') \<Longrightarrow> target p k' = target p k"
  by (cases k) (auto simp: Let_def split: prod.splits sum.splits option.splits if_splits)

lemma locked_target: "txn_ok p w k \<Longrightarrow> locked k = Some m \<Longrightarrow> target p k = Some m"
  by (cases k) (auto simp: online_pending_def offline_pending_def)

lemma locked_rank: "locked k = Some m \<Longrightarrow> txn_rank k \<le> 2"
  by (cases k) simp_all

definition free_for :: "(uuid \<Rightarrow> nat option) \<Rightarrow> nat \<Rightarrow> uuid option \<Rightarrow> bool" where
  "free_for ls n u \<longleftrightarrow> (\<forall>m. u = Some m \<longrightarrow> ls m = None \<or> ls m = Some n)"

lemma schedule_simps [simp]:
  "schedule p c [] x = x"
  "schedule p c (n # ns) x =
     schedule p c ns (case advance p c n x of None \<Rightarrow> x | Some (_, y) \<Rightarrow> y)"
  "schedule p c (ns @ ns') x = schedule p c ns' (schedule p c ns x)"
  by (simp_all add: schedule_def)

lemma schedule_idle: "ts n = None \<Longrightarrow> schedule p c (replicate j n) (ts, ls, w) = (ts, ls, w)"
  by (induction j) simp_all

lemma schedule_ok: "sessions_ok p x \<Longrightarrow> sessions_ok p (schedule p c ns x)"
proof (induction ns arbitrary: x)
  case (Cons n ns)
  then have "sessions_ok p (case advance p c n x of None \<Rightarrow> x | Some (_, y) \<Rightarrow> y)"
    by (auto split: option.split intro: sessions_step_ok statement)
  then show ?case using Cons.IH by simp
qed simp

text \<open>A transaction whose row nobody else has locked does not wait, and ends within its rank.\<close>

lemma schedule_alone:
  assumes "sessions_ok p (ts, ls, w)" "ts n = Some k" "free_for ls n (target p k)" "txn_rank k \<le> j"
  shows "\<exists>ts' ls' w'. schedule p c (replicate j n) (ts, ls, w) = (ts', ls', w') \<and> ts' n = None \<and>
    (\<forall>i. i \<noteq> n \<longrightarrow> ts' i = ts i) \<and> (\<forall>m. ls m = None \<or> ls m = Some n \<longrightarrow> ls' m = None)"
  using assms
proof (induction j arbitrary: ts ls w k)
  case 0
  then show ?case by (cases k) simp_all
next
  case (Suc j)
  note D = sessions_okD [OF Suc.prems(1)]
  obtain r w' where st: "txn_step p c k w = (r, w')" by force
  show ?case
  proof (cases r)
    case (Inl a)
    let ?ls = "case locked k of None \<Rightarrow> ls | Some m \<Rightarrow> ls(m := None)"
    have adv: "advance p c n (ts, ls, w) = Some (Some a, ts(n := None), ?ls, w')"
      using Suc.prems(2) st Inl by simp
    have "?ls m = None" if "ls m = None \<or> ls m = Some n" for m
      using that D(4) [of m n] Suc.prems(2) by (auto split: option.split)
    with adv show ?thesis by (simp add: schedule_idle)
  next
    case (Inr k')
    note k' = target_kept [OF st [unfolded Inr]] txn_step_rank [OF st [unfolded Inr]]
    define ls1 where "ls1 = (case locked k' of None \<Rightarrow> ls | Some m \<Rightarrow> ls(m \<mapsto> n))"
    have "txn_ok p w' k'"
      using txn_step_moves [OF D(1) D(3) [OF Suc.prems(2)] D(6) st [unfolded Inr]] by simp
    then have lk: "ls m = None \<or> ls m = Some n" if "locked k' = Some m" for m
      using locked_target [OF _ that] k'(1) Suc.prems(3) by (simp add: free_for_def)
    then have adv: "advance p c n (ts, ls, w) = Some (None, ts(n \<mapsto> k'), ls1, w')"
      using Suc.prems(2) st Inr by (auto simp: ls1_def split: option.split)
    have ok: "sessions_ok p (ts(n \<mapsto> k'), ls1, w')"
      by (rule moved_ok [OF Suc.prems(1,2) st [unfolded Inr]])
         (use lk in \<open>auto simp: ls1_def split: option.split\<close>)
    have mono: "ls1 m = None \<or> ls1 m = Some n" if "ls m = None \<or> ls m = Some n" for m
      using that by (auto simp: ls1_def split: option.split)
    have free: "free_for ls1 n (target p k')" using mono Suc.prems(3) k'(1) by (auto simp: free_for_def)
    have here: "(ts(n \<mapsto> k')) n = Some k'" and rank: "txn_rank k' \<le> j"
      using k'(2) Suc.prems(4) by simp_all
    from Suc.IH [OF ok here free rank] obtain ts' ls' w'' where
      "schedule p c (replicate j n) (ts(n \<mapsto> k'), ls1, w') = (ts', ls', w'')" "ts' n = None"
      "\<forall>i. i \<noteq> n \<longrightarrow> ts' i = (ts(n \<mapsto> k')) i" "\<forall>m. ls1 m = None \<or> ls1 m = Some n \<longrightarrow> ls' m = None"
      by blast
    moreover from this(4) mono have "\<forall>m. ls m = None \<or> ls m = Some n \<longrightarrow> ls' m = None" by blast
    ultimately show ?thesis using adv by (simp del: advance.simps)
  qed
qed

lemma schedule_answers:
  assumes "sessions_ok p (ts, ls, w)"
  shows "\<exists>n'. fst (schedule p c (replicate 2 n' @ replicate 4 n) (ts, ls, w)) n = None"
proof (cases "ts n")
  case None
  then show ?thesis by (intro exI [of _ n]) (simp add: schedule_idle)
next
  case (Some k)
  have rank: "txn_rank k \<le> 4" by (cases k) simp_all
  show ?thesis
  proof (cases "free_for ls n (target p k)")
    case True
    have "replicate 2 n @ replicate 4 n = replicate 6 n" by (simp flip: replicate_add)
    moreover have "fst (schedule p c (replicate 6 n) (ts, ls, w)) n = None"
      using schedule_alone [OF assms Some True, of 6 c] rank by auto
    ultimately show ?thesis by (intro exI [of _ n]) metis
  next
    case False
    then obtain m i where m: "target p k = Some m" "ls m = Some i" "i \<noteq> n"
      by (auto simp: free_for_def)
    then obtain k2 where k2: "ts i = Some k2" "locked k2 = Some m"
      using sessions_okD(4) [OF assms, of m i] by auto
    have "free_for ls i (target p k2)"
      using locked_target [OF sessions_okD(3) [OF assms k2(1)] k2(2)] m(2) by (simp add: free_for_def)
    from schedule_alone [OF assms k2(1) this locked_rank [OF k2(2)], of c] obtain ts' ls' w' where
      s: "schedule p c (replicate 2 i) (ts, ls, w) = (ts', ls', w')" "ts' n = Some k" "ls' m = None"
      using m Some by auto
    have ok: "sessions_ok p (ts', ls', w')"
      using schedule_ok [OF assms, of c "replicate 2 i"] unfolding s(1) .
    have "free_for ls' n (target p k)" using m(1) s(3) by (simp add: free_for_def)
    from schedule_alone [OF ok s(2) this rank, of c]
    have "fst (schedule p c (replicate 4 n) (ts', ls', w')) n = None" by auto
    then show ?thesis using s(1) by (intro exI [of _ i]) simp
  qed
qed

section \<open>Times of events\<close>

lemma no_locks [simp]: "(\<lambda>_. None)(m := None) = (\<lambda>_. None)"
  by auto

lemmas session_evaluation = begin_tx_def read_clock_def mark_online_def mark_offline_def
  insert_event_def record_online_def commit_tx_def Let_def written_def set_machine_def add_event_def
  online_row_def offline_row_def own_tx_def merge_changes_def domIff

text \<open>One agent reconnects while its old stream is being closed: transaction 1 is the new
  \<open>StartSession\<close>, transaction 0 the old \<open>EndSession\<close>.\<close>

definition reconnecting :: "string \<Rightarrow> session \<Rightarrow> world \<Rightarrow> sessions" where
  "reconnecting mid sess w =
     ((\<lambda>_. None)(1 \<mapsto> Start_Call mid, 0 \<mapsto> End_Call sess), \<lambda>_. None, w)"

lemma overtaken:
  assumes "\<not> ctx_done c" "w_faults w = []" "pg_uuid_in p mid = Some m"
    and "pg_uuid_in p (sess_machine_id sess) = Some m" "tb_machines (w_db w) m = Some row"
    and "m_status row = Online" "m_last_connected_at row = Some (pg_time_in p (sess_connected_at sess))"
  shows "\<exists>w' row'. schedule p c [1, 0, 0, 0, 0, 1, 1, 1] (reconnecting mid sess w)
      = (\<lambda>_. None, \<lambda>_. None, w') \<and>
    tb_machines (w_db w') m = Some row' \<and> m_status row' = Online \<and>
    tb_events (w_db w') = tb_events (w_db w) @
      [\<lparr>e_id = w_event_seq w, e_machine_id = m, e_status = Offline,
         e_occurred_at = pg_clock p (Suc (w_clock w))\<rparr>,
       \<lparr>e_id = Suc (w_event_seq w), e_machine_id = m, e_status = Online,
         e_occurred_at = pg_clock p (w_clock w)\<rparr>]"
  using assms
  by (simp add: reconnecting_def session_evaluation)

section \<open>Properties\<close>

text \<open>C15: the migration's constraints and the history of every machine hold whatever statements of whatever
  session calls interleave and wherever the server crashes: schema checks, keys, and per machine presence events that alternate and end
  in its status.\<close>

theorem interleaved_schema:
  assumes "pg_lawful p" "sessions_reachable p (ts, ls, w)"
  shows "schema_ok p (w_db w)"
  using sessions_okD(2) [OF sessions_reachable_ok [OF assms(2,1)]] by (simp add: world_ok_def)

text \<open>C7: the interleaved transactions refine the atomic specification of the presence store: what any
  interleaving commits, crashes of the server included, a sequence of atomic session starts, session ends and new machines does.\<close>

theorem interleaved_refines_spec:
  assumes "pg_lawful p" "sessions_reachable p (ts, ls, w)"
  shows "presence_spec\<^sup>*\<^sup>* (Map.empty, \<lambda>_. []) (pg_view w, machine_log (w_db w))"
  by (rule sessions_spec_run [OF assms])

text \<open>What the specification guarantees of the logs carries over.\<close>

lemma interleaved_logs:
  assumes "pg_lawful p" "sessions_reachable p (ts, ls, w)"
  shows "log_ok (pg_view w, machine_log (w_db w))"
  by (rule presence_spec_logs [OF sessions_spec_run [OF assms]])

text \<open>C17: no session call waits for ever, and none deadlocks: from every state, two statements of at most one
  other transaction and four of its own answer it.\<close>

theorem session_calls_answered:
  assumes "pg_lawful p" "sessions_reachable p (ts, ls, w)"
  shows "\<exists>n'. fst (schedule p c (replicate 2 n' @ replicate 4 n) (ts, ls, w)) n = None"
  by (rule schedule_answers [OF sessions_reachable_ok [OF assms(2,1)]])

text \<open>C40: the times of the events are not in their order: when an agent reconnects while its old stream is
  being closed, the machine ends online, its last event is \<open>online\<close>, and that event is dated before
  the \<open>offline\<close> event it follows, because \<open>occurred_at\<close> defaults to the start of the transaction.\<close>

theorem reconnect_event_times:
  assumes "pg_lawful p" "\<not> ctx_done c" "w_faults w = []" "pg_uuid_in p mid = Some m"
    and "pg_uuid_in p (sess_machine_id sess) = Some m" "tb_machines (w_db w) m = Some row"
    and "m_status row = Online" "m_last_connected_at row = Some (pg_time_in p (sess_connected_at sess))"
  shows "\<exists>w' row' off on. schedule p c [1, 0, 0, 0, 0, 1, 1, 1] (reconnecting mid sess w)
      = (\<lambda>_. None, \<lambda>_. None, w') \<and>
    tb_machines (w_db w') m = Some row' \<and> m_status row' = Online \<and>
    tb_events (w_db w') = tb_events (w_db w) @ [off, on] \<and>
    e_machine_id off = m \<and> e_machine_id on = m \<and> e_status off = Offline \<and> e_status on = Online \<and>
    e_id off < e_id on \<and> e_occurred_at on < e_occurred_at off"
  using overtaken [OF assms(2-8)] clock_less [OF assms(1), of "w_clock w" "Suc (w_clock w)"]
  by fastforce

section \<open>Witnesses\<close>

lemma schedule_reachable: "sessions_reachable p x \<Longrightarrow> sessions_reachable p (schedule p c ns x)"
proof (induction ns arbitrary: x)
  case (Cons n ns)
  have "sessions_reachable p (case advance p c n x of None \<Rightarrow> x | Some (_, y) \<Rightarrow> y)"
    using Cons.prems by (auto split: option.split intro: one_more statement)
  then show ?case using Cons.IH by simp
qed simp

text \<open>A machine enrolls; then two streams of its agent start a session at the same time.\<close>

lemma enrolled_sessions:
  "\<exists>w row. sessions_reachable sample_pg (\<lambda>_. None, \<lambda>_. None, w) \<and> w_faults w = [] \<and>
     tb_machines (w_db w) 0 = Some row \<and> m_status row = Unknown"
proof -
  have "fresh_ids sample_pg (empty_world [])" "w_faults (empty_world []) = []"
    "pg_new_uuid sample_pg (w_uuids (empty_world [])) = 0"
    by (simp_all add: fresh_ids_def empty_world_def empty_tables_def sample_pg_def)
  with pg_enroll_works [OF sample_pg_lawful _ _ _ demo_input_acceptable demo_storable,
      of background "empty_world []" "[]"]
  obtain m a w1 aid where e: "pg_enroll sample_pg background (stored_of demo_input []) (empty_world []) = (Inr (m, a), w1)"
    "added_enrollment sample_pg (stored_of demo_input []) 0 aid (w_db (empty_world [])) (w_db w1)"
    "w_faults w1 = []"
    by (auto simp: demo_input_normal)
  have "sessions_reachable sample_pg (\<lambda>_. None, \<lambda>_. None, w1)"
    by (rule one_more [OF nothing_yet plain [OF call_enroll [OF e(1)]]]) (simp add: locks_kept_def)
  with e(2,3) show ?thesis by (auto simp: added_enrollment_def new_machine_row_def)
qed

definition two_starts :: "world \<Rightarrow> sessions" where
  "two_starts w = ((\<lambda>_. None)(0 \<mapsto> Start_Call (bits_text 0), 1 \<mapsto> Start_Call (bits_text 0)),
     \<lambda>_. None, w)"

lemma two_starts_reachable:
  "sessions_reachable p (\<lambda>_. None, \<lambda>_. None, w) \<Longrightarrow> sessions_reachable p (two_starts w)"
  unfolding two_starts_def
  by (rule one_more [OF one_more [OF _ start_call] start_call]) simp_all

text \<open>After three statements of the first, the second waits for the row.\<close>

lemma second_waits:
  assumes "w_faults w = []" "tb_machines (w_db w) 0 = Some row" "m_status row = Unknown"
  shows "advance sample_pg background 1 (schedule sample_pg background [0, 1, 0] (two_starts w)) = None"
  using assms by (simp add: two_starts_def session_evaluation)

lemma both_start:
  assumes "w_faults w = []" "tb_machines (w_db w) 0 = Some row" "m_status row = Unknown"
  shows "\<exists>w' row'. schedule sample_pg background [0, 1, 0, 1, 0, 0, 1, 1] (two_starts w)
      = (\<lambda>_. None, \<lambda>_. None, w') \<and> tb_machines (w_db w') 0 = Some row' \<and> m_status row' = Online"
  using assms by (simp add: two_starts_def session_evaluation)

theorem interleaved_schema_witness:
  "\<exists>(w :: world) row. tb_machines (w_db w) 0 = Some row \<and> m_status row = Online \<and> schema_ok sample_pg (w_db w)"
proof -
  obtain w row where w: "sessions_reachable sample_pg (\<lambda>_. None, \<lambda>_. None, w)" "w_faults w = []"
    "tb_machines (w_db w) 0 = Some row" "m_status row = Unknown"
    using enrolled_sessions by blast
  obtain w' row' where w': "schedule sample_pg background [0, 1, 0, 1, 0, 0, 1, 1] (two_starts w)
      = (\<lambda>_. None, \<lambda>_. None, w')" "tb_machines (w_db w') 0 = Some row'" "m_status row' = Online"
    using both_start [OF w(2-4)] by blast
  have "sessions_reachable sample_pg (\<lambda>_. None, \<lambda>_. None, w')"
    using schedule_reachable [OF two_starts_reachable [OF w(1)]] w'(1) by metis
  from interleaved_schema [OF sample_pg_lawful this] w'(2,3) show ?thesis by blast
qed

theorem interleaved_refines_spec_witness:
  "\<exists>(w :: world) row. tb_machines (w_db w) 0 = Some row \<and> m_status row = Online \<and>
     presence_spec\<^sup>*\<^sup>* (Map.empty, \<lambda>_. []) (pg_view w, machine_log (w_db w))"
proof -
  obtain w row where w: "sessions_reachable sample_pg (\<lambda>_. None, \<lambda>_. None, w)" "w_faults w = []"
    "tb_machines (w_db w) 0 = Some row" "m_status row = Unknown"
    using enrolled_sessions by blast
  obtain w' row' where w': "schedule sample_pg background [0, 1, 0, 1, 0, 0, 1, 1] (two_starts w)
      = (\<lambda>_. None, \<lambda>_. None, w')" "tb_machines (w_db w') 0 = Some row'" "m_status row' = Online"
    using both_start [OF w(2-4)] by blast
  have "sessions_reachable sample_pg (\<lambda>_. None, \<lambda>_. None, w')"
    using schedule_reachable [OF two_starts_reachable [OF w(1)]] w'(1) by metis
  from interleaved_refines_spec [OF sample_pg_lawful this] w'(2,3) show ?thesis by blast
qed

text \<open>The second of two starts waits, and is answered all the same.\<close>

theorem session_calls_answered_witness:
  "\<exists>x n'. advance sample_pg background 1 x = None \<and> fst x 1 \<noteq> None \<and>
     fst (schedule sample_pg background (replicate 2 n' @ replicate 4 1) x) 1 = None"
proof -
  obtain w row where w: "sessions_reachable sample_pg (\<lambda>_. None, \<lambda>_. None, w)" "w_faults w = []"
    "tb_machines (w_db w) 0 = Some row" "m_status row = Unknown"
    using enrolled_sessions by blast
  define x where "x = schedule sample_pg background [0, 1, 0] (two_starts w)"
  have reach: "sessions_reachable sample_pg x"
    unfolding x_def by (rule schedule_reachable [OF two_starts_reachable [OF w(1)]])
  obtain ts ls v where x: "x = (ts, ls, v)" by (cases x)
  have "fst x 1 \<noteq> None"
    using w(2-4) by (simp add: x_def two_starts_def session_evaluation)
  moreover have "advance sample_pg background 1 x = None"
    unfolding x_def by (rule second_waits [OF w(2-4)])
  ultimately show ?thesis
    using session_calls_answered [OF sample_pg_lawful, of ts ls v background 1] reach
    unfolding x by blast
qed

theorem reconnect_event_times_witness:
  "\<exists>sess w w' row' off on.
    schedule sample_pg background [1, 0, 0, 0, 0, 1, 1, 1] (reconnecting (bits_text 1) sess w)
      = (\<lambda>_. None, \<lambda>_. None, w') \<and>
    tb_machines (w_db w') 1 = Some row' \<and> m_status row' = Online \<and>
    tb_events (w_db w') = tb_events (w_db w) @ [off, on] \<and> e_status off = Offline \<and>
    e_status on = Online \<and> e_occurred_at on < e_occurred_at off"
proof -
  obtain sess :: session and row and w :: world where o: "pg_uuid_in sample_pg (sess_machine_id sess) = Some 1" "w_faults w = []"
    "tb_machines (w_db w) 1 = Some row" "m_status row = Online"
    "m_last_connected_at row = Some (pg_time_in sample_pg (sess_connected_at sess))"
  proof -
    obtain sess w where s: "open_session sample_externals (pg_presence_store sample_pg) background
        demo_credentials demo_world = (Inr sess, w)" "w_faults w = []"
      "pg_uuid_in sample_pg (sess_machine_id sess) = Some 1"
      "\<exists>row. tb_machines (w_db w) 1 = Some row \<and> m_status row = Online \<and>
         m_last_connected_at row = Some (pg_time_in sample_pg (sess_connected_at sess))"
      using pg_lawfulD(4) [OF sample_pg_lawful]
      by (simp add: open_session_works [OF sample_pg_lawful _ _ demo_presentable]
          online_tables_def Let_def set_machine_def add_event_def online_row_def)
    from s(4) obtain row where "tb_machines (w_db w) 1 = Some row" "m_status row = Online"
      "m_last_connected_at row = Some (pg_time_in sample_pg (sess_connected_at sess))" by blast
    then show thesis by (rule that [OF s(3,2)])
  qed
  have "pg_uuid_in sample_pg (bits_text 1) = Some 1" "\<not> ctx_done background" by simp_all
  from reconnect_event_times [OF sample_pg_lawful this(2) o(2) this(1) o(1,3-5)] show ?thesis by blast
qed

end
