(* ===== verification/Concurrent_Server.thy ===== *)
theory Concurrent_Server
  imports Interleavings
begin

text \<open>
  The streams of theory Streams over the statements of theory Transactions: where a stream starts or
  closes its session, the call runs statement by statement, between the statements of all other
  streams, and waits for rows other transactions have locked. What theory Server shows of the
  atomic calls, that a machine is online exactly when a stream holds its latest session, is shown
  again here.
\<close>

section \<open>Streams that run transactions\<close>

definition session_call :: "conn \<Rightarrow> txn option" where
  \<comment> \<open>the session call the handler makes next\<close>
  "session_call k =
     (case k of
        Starting c ident \<Rightarrow> Some (Start_Call (id_machine_id ident))
      | Closing sess err \<Rightarrow> Some (End_Call sess)
      | Closing_Eof sess \<Rightarrow> Some (End_Call sess)
      | _ \<Rightarrow> None)"

lemma session_call_simps [simp]:
  "session_call Awaiting = None"
  "session_call (Starting c ident) = Some (Start_Call (id_machine_id ident))"
  "session_call (Receiving sess) = None"
  "session_call (Touching c sess) = None"
  "session_call (Closing sess err) = Some (End_Call sess)"
  "session_call (Closing_Eof sess) = Some (End_Call sess)"
  "session_call (Done r) = None"
  by (simp_all add: session_call_def)

text \<open>What the handler makes of the answer.\<close>

fun conn_answer :: "go_error option \<Rightarrow> conn \<Rightarrow> answer \<Rightarrow> conn" where
  "conn_answer reply (Starting c ident) (Started (Inl e)) =
     Done (Some (open_status (wrap_error ''start presence session: '' e)))"
| "conn_answer reply (Starting c ident) (Started (Inr t)) =
     Receiving \<lparr>sess_machine_id = id_machine_id ident, sess_agent_id = id_agent_id ident,
                sess_connected_at = t\<rparr>"
| "conn_answer reply (Closing sess err) (Ended r) = Done (Some err)"
| "conn_answer reply (Closing_Eof sess) (Ended (Some e)) =
     Done (Some (Status Internal ''close agent stream''))"
| "conn_answer reply (Closing_Eof sess) (Ended None) = Done reply"
| "conn_answer reply k a = k"

definition call_ctx :: "conn \<Rightarrow> ctx" where
  "call_ctx k = (case k of Starting c ident \<Rightarrow> c | _ \<Rightarrow> close_ctx)"

text \<open>Alone, the statements and the answer are the step of theory Streams.\<close>

lemma conn_step_run_txn:
  assumes "session_call k = Some call"
  shows "conn_step ext (pg_presence_store p) ts reply ev k w =
    (conn_answer reply k (fst (run_txn p (call_ctx k) call w)), snd (run_txn p (call_ctx k) call w))"
proof (cases k)
  case (Starting c ident)
  obtain r w' where s: "pg_start_session p c (id_machine_id ident) w = (r, w')" by force
  with run_start [OF s] assms show ?thesis
    by (auto simp: Starting call_ctx_def split: sum.split)
next
  case (Closing sess err)
  obtain r w' where s: "pg_end_session p close_ctx sess w = (r, w')" by force
  with run_end [OF s] assms show ?thesis
    by (auto simp: Closing call_ctx_def close_session_def split: option.split)
next
  case (Closing_Eof sess)
  obtain r w' where s: "pg_end_session p close_ctx sess w = (r, w')" by force
  with run_end [OF s] assms show ?thesis
    by (auto simp: Closing_Eof call_ctx_def close_session_def split: option.split)
qed (use assms in simp_all)

text \<open>The machine whose status an error leaves in doubt.\<close>

definition doubted :: "pg \<Rightarrow> conn \<Rightarrow> answer \<Rightarrow> uuid set" where
  "doubted p k a =
     (if (\<exists>e. a = Started (Inl e)) \<or> (\<exists>e. a = Ended (Some e))
      then {m. \<exists>call. session_call k = Some call \<and> target p call = Some m} else {})"

text \<open>A session start that succeeds ends the doubt: the stream that made it holds the session.\<close>

definition settled :: "pg \<Rightarrow> conn \<Rightarrow> answer \<Rightarrow> uuid set" where
  "settled p k a =
     (if \<exists>t. a = Started (Inr t)
      then {m. \<exists>call. session_call k = Some call \<and> target p call = Some m} else {})"

definition machines_online :: "world \<Rightarrow> uuid set" where
  "machines_online w = {m. \<exists>row. tb_machines (w_db w) m = Some row \<and> m_status row = Online}"

text \<open>The steps of the handlers.\<close>

type_synonym server_sessions = "(nat \<Rightarrow> conn) \<times> uuid set \<times> sessions"

inductive handler_step ::
  "externals \<Rightarrow> pg \<Rightarrow> go_error option \<Rightarrow> server_sessions \<Rightarrow> server_sessions \<Rightarrow> bool"
  for ext p reply where
  begin_call: "ts n = None \<Longrightarrow> session_call (cs n) = Some k \<Longrightarrow>
    handler_step ext p reply (cs, D, ts, ls, w) (cs, D, ts(n \<mapsto> k), ls, w)"
| next_statement: "advance p c n x = Some (None, y) \<Longrightarrow>
    handler_step ext p reply (cs, D, x) (cs, D, y)"
| call_answered: "advance p c n x = Some (Some a, y) \<Longrightarrow>
    handler_step ext p reply (cs, D, x)
      (cs(n := conn_answer reply (cs n) a), (D \<union> doubted p (cs n) a) - settled p (cs n) a, y)"
| other_step: "session_call (cs n) = None \<Longrightarrow>
    conn_step ext (pg_presence_store p) (pg_telemetry_store p) reply ev (cs n) w = (k', w') \<Longrightarrow>
    locks_kept ls w w' \<Longrightarrow>
    handler_step ext p reply (cs, D, ts, ls, w) (cs(n := k'), D, ts, ls, w')"
| agent_enrolls: "pg_enroll p c se w = (r, w') \<Longrightarrow>
    handler_step ext p reply (cs, D, ts, ls, w) (cs, D, ts, ls, w')"

text \<open>When the server stops, by a crash or by a shutdown that does not close the streams, and is started
  again, it has no streams, and the machines that are online in the database are in doubt.\<close>

definition restarted :: "server_sessions \<Rightarrow> server_sessions" where
  "restarted = (\<lambda>(cs, D, ts, ls, w). (\<lambda>_. Awaiting, machines_online w, \<lambda>_. None, \<lambda>_. None, w))"

lemma restarted_simps [simp]:
  "restarted (cs, D, ts, ls, w) = (\<lambda>_. Awaiting, machines_online w, \<lambda>_. None, \<lambda>_. None, w)"
  by (simp add: restarted_def)

inductive streams_step ::
  "externals \<Rightarrow> pg \<Rightarrow> go_error option \<Rightarrow> server_sessions \<Rightarrow> server_sessions \<Rightarrow> bool"
  for ext p reply where
  handled: "handler_step ext p reply x y \<Longrightarrow> streams_step ext p reply x y"
| server_restarts: "streams_step ext p reply x (restarted x)"

inductive streams_reachable ::
  "externals \<Rightarrow> pg \<Rightarrow> go_error option \<Rightarrow> server_sessions \<Rightarrow> bool" for ext p reply where
  no_stream: "streams_reachable ext p reply (\<lambda>_. Awaiting, {}, \<lambda>_. None, \<lambda>_. None, empty_world fs)"
| stream_step: "streams_reachable ext p reply x \<Longrightarrow> streams_step ext p reply x y \<Longrightarrow>
    streams_reachable ext p reply y"

section \<open>Steps of the streams are steps of the sessions\<close>

lemma other_step_plain:
  assumes "session_call k = None"
    and "conn_step ext (pg_presence_store p) (pg_telemetry_store p) reply ev k w = (k', w')"
  shows "(w' = w \<or> plain_call p w w') \<and> pg_view w' = pg_view w \<and> conn_session k' = conn_session k"
proof -
  have find: "w' = w \<or> plain_call p w w'" if "find_identity ext (pg_presence_store p) c creds w = (r, w')"
    for c creds r
    using that
    by (auto simp: find_identity_def split: if_splits sum.splits option.splits prod.splits
        intro: call_find)
  have rec: "w' = w \<or> plain_call p w w'" if "record_sample (pg_telemetry_store p) c smp w = (r, w')"
    for c smp r
    using that by (auto simp: record_sample_def split: option.splits prod.splits intro: call_record)
  show ?thesis
  proof (cases k)
    case Awaiting
    with assms(2) have "conn_session k' = None" "w' = w \<or> plain_call p w w'" "pg_view w' = pg_view w"
      by (auto split: sum.splits option.splits prod.splits dest: find pg_server.find_identity_view)
    then show ?thesis by (simp add: Awaiting)
  next
    case (Receiving sess)
    with assms(2) have "w' = w \<or> plain_call p w w'"
      by (auto simp: receive_message_def split: sum.splits if_splits option.splits prod.splits dest: rec)
    moreover have "pg_view w' = pg_view w \<and> conn_session k' = Some sess"
      using assms(2) Receiving
      by (auto split: sum.splits if_splits dest: pg_server.receive_message_view)
    ultimately show ?thesis by (simp add: Receiving)
  next
    case (Touching c sess)
    obtain r w1 where t: "pg_touch_session p c sess w = (r, w1)" by force
    with assms(2) Touching have "w' = w1" "conn_session k' = Some sess"
      by (auto simp: record_activity_def split: option.splits)
    with call_touch [OF t] pg_touch_cases [OF t] show ?thesis
      by (auto simp: Touching dest: pg_view_touch pg_view_db)
  qed (use assms in simp_all)
qed

lemma enroll_keeps_locks:
  assumes "sessions_ok p (ts, ls, w)" "pg_enroll p c se w = (r, w')"
  shows "locks_kept ls w w'"
proof -
  have row: "m \<in> dom (tb_machines (w_db w))" if "ls m = Some n" for m n
  proof -
    from that sessions_okD(4) [OF assms(1), of m n] obtain k where "ts n = Some k" "locked k = Some m"
      by auto
    with sessions_okD(3) [OF assms(1) this(1)] show ?thesis
      by (cases k) (auto simp: online_pending_def offline_pending_def)
  qed
  from pg_enroll_cases [OF assms(2)] consider "w_db w' = w_db w"
    | mid aid where "added_enrollment p se mid aid (w_db w) (w_db w')" by blast
  then show ?thesis
    by cases (use row in \<open>fastforce simp: locks_kept_def added_enrollment_def domIff\<close>)+
qed

lemma handler_step_sessions:
  assumes "handler_step ext p reply x y" "sessions_ok p (snd (snd x))"
  shows "snd (snd y) = snd (snd x) \<or> sessions_step p (snd (snd x)) (snd (snd y))"
  using assms
proof (induction rule: handler_step.induct)
  case (begin_call ts n cs k D ls w)
  from begin_call(2) have "(\<exists>mid. k = Start_Call mid) \<or> (\<exists>sess. k = End_Call sess)"
    by (cases "cs n") auto
  with begin_call(1) show ?case by (auto intro: sessions_step.start_call sessions_step.end_call)
next
  case (other_step cs n ev w k' w' ls D ts)
  from other_step_plain [OF other_step(1,2)] other_step(3) show ?case
    by (auto intro: sessions_step.plain)
next
  case (agent_enrolls c se w r w' cs D ts ls)
  then have "locks_kept ls w w'" by (intro enroll_keeps_locks) simp_all
  with agent_enrolls(1) show ?case by (auto intro: sessions_step.plain call_enroll)
qed (auto intro: sessions_step.statement)

lemma streams_step_sessions:
  assumes "streams_step ext p reply x y" "sessions_ok p (snd (snd x))"
  shows "snd (snd y) = snd (snd x) \<or> sessions_step p (snd (snd x)) (snd (snd y))"
  using assms
proof (induction rule: streams_step.induct)
  case (handled x y)
  then show ?case by (rule handler_step_sessions)
next
  case (server_restarts x)
  show ?case by (cases x) (simp add: sessions_step.crash)
qed

interpretation stream_sessions: forward_simulation "streams_step ext p reply" "sessions_step p"
  "\<lambda>x. snd (snd x)" "\<lambda>x. sessions_ok p (snd (snd x))" for ext p reply
  by unfold_locales (metis streams_step_sessions sessions_step_ok, rule streams_step_sessions)

text \<open>So the server as a whole refines the presence specification.\<close>

lemma streams_refine_spec:
  assumes "(streams_step ext p reply)\<^sup>*\<^sup>* x y" "sessions_ok p (snd (snd x))"
  shows "presence_spec\<^sup>*\<^sup>* (presence_of (snd (snd x))) (presence_of (snd (snd y)))"
  using session_refinement.simulates [OF conjunct2 [OF stream_sessions.simulates [OF assms]] assms(2)]
  by simp

section \<open>Calls and the streams that wait for them\<close>

fun call_of :: "txn \<Rightarrow> txn" where
  "call_of (Start_Call mid) = Start_Call mid"
| "call_of (Start_Begun mid now) = Start_Call mid"
| "call_of (Start_Marked mid t previous ch) = Start_Call mid"
| "call_of (Start_Logged mid t ch) = Start_Call mid"
| "call_of (End_Call sess) = End_Call sess"
| "call_of (End_Begun sess now) = End_Call sess"
| "call_of (End_Unmatched sess now) = End_Call sess"
| "call_of (End_Marked sess ch) = End_Call sess"
| "call_of (End_Logged sess ch) = End_Call sess"

lemma call_of_kept: "txn_step p c k w = (Inr k', w') \<Longrightarrow> call_of k' = call_of k"
  by (cases k) (auto simp: Let_def split: prod.splits sum.splits option.splits if_splits)

lemma call_of_session_call: "session_call k = Some call \<Longrightarrow> call_of call = call"
  by (cases k) auto

lemma target_call_of [simp]: "target p (call_of k) = target p k"
  by (cases k) simp_all

text \<open>Which answers a transaction can give.\<close>

lemma answer_kind:
  assumes "txn_step p c k w = (Inl a, w')"
  shows "(\<exists>mid. call_of k = Start_Call mid) \<and> (\<exists>r. a = Started r) \<or>
    (\<exists>sess. call_of k = End_Call sess) \<and> (\<exists>r. a = Ended r)"
  using assms
  by (cases k) (auto simp: Let_def split: prod.splits sum.splits option.splits if_splits)

lemma started_answer:
  assumes "txn_step p c k w = (Inl (Started (Inr t)), w')"
  shows "\<exists>mid t' ch. k = Start_Logged mid t' ch \<and> t = pg_time_out p t' \<and> w_db w' = merge_changes ch (w_db w)"
  using assms
  by (cases k) (auto simp: Let_def split: prod.splits sum.splits option.splits if_splits
      dest!: commit_tx_cases)

lemma ended_answer:
  assumes "txn_step p c k w = (Inl (Ended None), w')"
  shows "(\<exists>sess now. k = End_Unmatched sess now) \<and> w_db w' = w_db w \<or>
    (\<exists>sess ch. k = End_Logged sess ch \<and> w_db w' = merge_changes ch (w_db w))"
  using assms
  by (cases k) (auto simp: commit_tx_def [of c "\<lparr>tx_now = now, tx_tables = w_db w\<rparr>" w for now] Let_def
      split: prod.splits sum.splits option.splits if_splits
      dest!: commit_tx_cases install_cases)

text \<open>A transaction that found no row to end belongs to a superseded session.\<close>

definition superseded_calls :: "pg \<Rightarrow> sessions \<Rightarrow> bool" where
  "superseded_calls p = (\<lambda>(ts, ls, w). \<forall>n sess now.
     ts n = Some (End_Unmatched sess now) \<longrightarrow> pg_store.stale p sess w)"

lemma spec_connected_at:
  assumes "presence_spec (v, l) (v', l')" "v m = Some (b, Some u)"
  shows "\<exists>b' u'. v' m = Some (b', Some u') \<and> u \<le> u'"
  using assms(1)
  by (rule presence_specE)
     (use assms(2) in \<open>auto simp: started_def ended_def newer_stamp_def dest: less_imp_le\<close>)

lemma stale_kept:
  assumes "pg_store.stale p sess w"
    and "pg_view w' = pg_view w \<or> presence_spec (pg_view w, l) (pg_view w', l')"
  shows "pg_store.stale p sess w'"
proof -
  from assms(1) obtain m b u where m: "pg_uuid_in p (sess_machine_id sess) = Some m"
    "pg_view w m = Some (b, Some u)" "pg_time_in p (sess_connected_at sess) < u"
    by (auto simp: pg_store.stale_def)
  from assms(2) have "\<exists>b' u'. pg_view w' m = Some (b', Some u') \<and> u \<le> u'"
    using m(2) spec_connected_at by auto
  with m show ?thesis by (fastforce simp: pg_store.stale_def)
qed

section \<open>The invariant\<close>

definition server_ok :: "pg \<Rightarrow> server_sessions \<Rightarrow> bool" where
  "server_ok p = (\<lambda>(cs, D, ts, ls, w).
     sessions_ok p (ts, ls, w) \<and>
     (\<forall>n k. ts n = Some k \<longrightarrow> session_call (cs n) = Some (call_of k)) \<and>
     superseded_calls p (ts, ls, w) \<and>
     pg_server.accounted (pg_server.holds p cs) D (pg_view w))"

lemma server_okD:
  assumes "server_ok p (cs, D, ts, ls, w)"
  shows "sessions_ok p (ts, ls, w)" "ts n = Some k \<Longrightarrow> session_call (cs n) = Some (call_of k)"
    "ts n = Some (End_Unmatched sess now) \<Longrightarrow> pg_store.stale p sess w"
    "pg_server.accounted (pg_server.holds p cs) D (pg_view w)"
  using assms unfolding server_ok_def superseded_calls_def prod.case by blast+

lemma server_okI:
  assumes "sessions_ok p (ts, ls, w)" "\<And>n k. ts n = Some k \<Longrightarrow> session_call (cs n) = Some (call_of k)"
    and "\<And>n sess now. ts n = Some (End_Unmatched sess now) \<Longrightarrow> pg_store.stale p sess w"
    and "pg_server.accounted (pg_server.holds p cs) D (pg_view w)"
  shows "server_ok p (cs, D, ts, ls, w)"
  using assms unfolding server_ok_def superseded_calls_def prod.case by blast

text \<open>The statement that finds no row to end.\<close>

lemma unmatched_stale:
  assumes "pg_server.accounted H D (pg_view w)" "txn_step p c (End_Begun sess now) w = (Inr (End_Unmatched sess' now'), w')"
    and "\<And>m. pg_uuid_in p (sess_machine_id sess) = Some m \<Longrightarrow> H n m (pg_time_in p (sess_connected_at sess))"
  shows "pg_store.stale p sess' w"
proof -
  from assms(2) have o: "mark_offline p c sess \<lparr>tx_now = now, tx_tables = w_db w\<rparr> w = (Inr None, w')" "sess' = sess"
    by (auto split: prod.splits sum.splits option.splits)
  from mark_offline_cases [OF o(1)] obtain m where m: "pg_uuid_in p (sess_machine_id sess) = Some m"
    "\<not> session_matches m (pg_time_in p (sess_connected_at sess)) (w_db w)"
    by (auto simp: session_matches_def)
  from pg_server.accounted_tracked [OF assms(1) assms(3) [OF m(1)]] obtain b u where
    "pg_view w m = Some (b, Some u)" "pg_time_in p (sess_connected_at sess) \<le> u"
    "pg_time_in p (sess_connected_at sess) = u \<longrightarrow> b"
    by blast
  with m show ?thesis by (auto simp: pg_store.stale_def o(2) pg_view_matches)
qed

text \<open>The sessions streams hold, when one stream's position changes.\<close>

lemma holds_same:
  assumes "conn_session k' = conn_session (cs n)"
  shows "pg_server.holds p (cs(n := k')) = pg_server.holds p cs"
  using assms by (auto simp: pg_server.holds_upd pg_server.holds_def fun_eq_iff)

lemma holds_none:
  assumes "conn_session k' = None"
  shows "pg_server.holds p (cs(n := k')) n' m t \<longleftrightarrow> n' \<noteq> n \<and> pg_server.holds p cs n' m t"
  using assms by (auto simp: pg_server.holds_upd)

text \<open>An answer and the sessions the streams hold.\<close>

lemma start_answered:
  assumes "world_ok p w" "txn_ok p w k" "pg_lawful p" "call_of k = Start_Call (id_machine_id ident)"
    and st: "txn_step p c k w = (Inl (Started r), w')"
    and cs: "cs n = Starting c' ident" and acc: "pg_server.accounted (pg_server.holds p cs) D (pg_view w)"
  shows "pg_server.accounted (pg_server.holds p (cs(n := conn_answer reply (cs n) (Started r))))
    ((D \<union> doubted p (cs n) (Started r)) - settled p (cs n) (Started r)) (pg_view w')"
proof -
  note more = pg_server.accounted_more [OF _, of _ D _ "doubted p (cs n) (Started r)"]
  show ?thesis
  proof (cases r)
    case (Inr t)
    with started_answer [OF st [unfolded Inr]] obtain mid t' ch where k: "k = Start_Logged mid t' ch"
      "t = pg_time_out p t'" "w_db w' = merge_changes ch (w_db w)" by blast
    from start_committed [OF assms(1) assms(2) [unfolded k(1)] k(3)] obtain eid where
      s: "pg_uuid_in p mid = Some (ch_machine ch)" "newer_stamp (ch_machine ch) t' (pg_view w)"
      "session_started (ch_machine ch) t' eid (w_db w) (w_db w')" by metis
    have mid: "mid = id_machine_id ident" using assms(4) k(1) by simp
    have "pg_server.accounted (pg_server.holds p (cs(n := conn_answer reply (cs n) (Started r))))
        (D - {ch_machine ch}) (started (ch_machine ch) t' (pg_view w))"
      by (rule pg_server.accounted_started [OF acc s(2), of n])
         (use s(1) mid k(2) assms(3) cs Inr in \<open>auto simp: pg_server.holds_upd pg_server.holds_def pg_lawfulD\<close>)
    moreover have "doubted p (cs n) (Started r) = {}" "settled p (cs n) (Started r) = {ch_machine ch}"
      using s(1) mid by (auto simp: doubted_def settled_def Inr cs)
    ultimately show ?thesis using pg_view_started [OF s(3)] by simp
  next
    case (Inl e)
    have none: "settled p (cs n) (Started r) = {}" by (simp add: settled_def Inl)
    have same: "pg_server.holds p (cs(n := conn_answer reply (cs n) (Started r))) = pg_server.holds p cs"
      by (rule holds_same) (simp add: cs Inl)
    from txn_step_answers [OF st] consider "w_db w' = w_db w"
      | ch where "commits k = Some ch" "w_db w' = merge_changes ch (w_db w)" by blast
    then show ?thesis
    proof cases
      case 1
      then have "pg_view w' = pg_view w" by (rule pg_view_db)
      then show ?thesis unfolding same none using more [OF acc] by simp
    next
      case (2 ch)
      with assms(4) obtain t' where k: "k = Start_Logged (id_machine_id ident) t' ch"
        by (cases k) auto
      from start_committed [OF assms(1) assms(2) [unfolded k] 2(2)] obtain eid where
        s: "pg_uuid_in p (id_machine_id ident) = Some (ch_machine ch)"
        "newer_stamp (ch_machine ch) t' (pg_view w)"
        "session_started (ch_machine ch) t' eid (w_db w) (w_db w')" by metis
      have "ch_machine ch \<in> doubted p (cs n) (Started r)"
        using s(1) by (simp add: doubted_def Inl cs)
      from pg_server.accounted_doubtful [OF acc s(2) this] show ?thesis
        unfolding same none using pg_view_started [OF s(3)] by simp
    qed
  qed
qed

lemma end_answered:
  assumes "txn_ok p w k" "call_of k = End_Call sess"
    and st: "txn_step p c k w = (Inl (Ended r), w')"
    and stale: "\<And>now. k = End_Unmatched sess now \<Longrightarrow> pg_store.stale p sess w"
    and cs: "session_call (cs n) = Some (End_Call sess)" and acc: "pg_server.accounted (pg_server.holds p cs) D (pg_view w)"
  shows "pg_server.accounted (pg_server.holds p (cs(n := conn_answer reply (cs n) (Ended r))))
    (D \<union> doubted p (cs n) (Ended r)) (pg_view w')"
proof -
  let ?H' = "pg_server.holds p (cs(n := conn_answer reply (cs n) (Ended r)))"
  have pos: "(\<exists>err. cs n = Closing sess err) \<or> cs n = Closing_Eof sess" using cs by (cases "cs n") auto
  then have held: "conn_session (cs n) = Some sess" by auto
  have "conn_session (conn_answer reply (cs n) (Ended r)) = None" using pos by (cases r) auto
  note H' = holds_none [OF this]
  have only: "pg_server.holds p cs n m t \<longleftrightarrow>
      pg_uuid_in p (sess_machine_id sess) = Some m \<and> t = pg_time_in p (sess_connected_at sess)" for m t
    using held by (auto simp: pg_server.holds_def)
  note more = pg_server.accounted_more [OF _, of _ D _ "doubted p (cs n) (Ended r)"]
  have ended: "pg_server.accounted ?H' D (ended m (pg_time_in p (sess_connected_at sess)) (pg_view w))"
    if "pg_uuid_in p (sess_machine_id sess) = Some m" for m
    by (rule pg_server.accounted_ended [OF acc, of n]) (use that only H' in auto)
  consider (failed) e where "r = Some e" "w_db w' = w_db w"
    | (unmatched) now where "k = End_Unmatched sess now" "w_db w' = w_db w"
    | (committed) ch where "commits k = Some ch" "w_db w' = merge_changes ch (w_db w)"
  proof (cases r)
    case None
    with ended_answer [OF st [unfolded None]] assms(2) unmatched committed show thesis by auto
  next
    case (Some e)
    with txn_step_answers [OF st] failed committed show thesis by blast
  qed
  then show ?thesis
  proof cases
    case failed
    then have "m \<in> doubted p (cs n) (Ended r)" if "pg_server.holds p cs n m t" for m t
      using that by (simp add: only doubted_def cs)
    then show ?thesis
      unfolding pg_view_db [OF failed(2)] by (intro pg_server.accounted_released [OF acc H']) blast
  next
    case unmatched
    from stale [OF unmatched(1)] obtain m where m: "pg_uuid_in p (sess_machine_id sess) = Some m"
      "ended m (pg_time_in p (sess_connected_at sess)) (pg_view w) = pg_view w"
      by (auto simp: pg_store.stale_def ended_def)
    with ended more pg_view_db [OF unmatched(2)] show ?thesis by metis
  next
    case committed
    with assms(2) have k: "k = End_Logged sess ch" by (cases k) auto
    from end_committed [OF assms(1) [unfolded k] committed(2)] obtain eid where
      "pg_uuid_in p (sess_machine_id sess) = Some (ch_machine ch)"
      "session_ended (ch_machine ch) (pg_time_in p (sess_connected_at sess)) eid (w_db w) (w_db w')"
      by metis
    with ended more pg_view_ended show ?thesis by metis
  qed
qed

lemma sessions_step_stale:
  assumes "sessions_step p (ts, ls, w) (ts', ls', w')" "sessions_ok p (ts, ls, w)" "pg_store.stale p sess w"
  shows "pg_store.stale p sess w'"
  using sessions_step_refines [OF assms(1,2)] stale_kept [OF assms(3)] by auto

lemma next_statement_ok:
  assumes ok: "server_ok p (cs, D, ts, ls, w)" and adv: "advance p c n (ts, ls, w) = Some (None, ts', ls', w')"
  shows "server_ok p (cs, D, ts', ls', w')"
proof -
  note I = server_okD [OF ok]
  note D = sessions_okD [OF I(1)]
  from adv show ?thesis
  proof (cases rule: advance_cases)
    case (moved k k' w2 ls2)
    then have y: "ts' = ts(n \<mapsto> k')" "w' = w2" by simp_all
    have db: "w_db w' = w_db w"
      using txn_step_moves [OF D(1) D(3) [OF moved(1)] D(6) moved(2)] y by simp
    then have view: "pg_view w' = pg_view w" by (rule pg_view_db)
    have sok: "sessions_ok p (ts', ls', w')" by (rule sessions_step_ok [OF statement [OF adv] I(1)])
    show ?thesis
    proof (rule server_okI [OF sok])
      fix i x assume "ts' i = Some x"
      then show "session_call (cs i) = Some (call_of x)"
        using I(2) [of i x] I(2) [OF moved(1)] call_of_kept [OF moved(2)] y(1) by (cases "i = n") auto
    next
      fix i sess now assume i: "ts' i = Some (End_Unmatched sess now)"
      have "pg_store.stale p sess w"
      proof (cases "i = n")
        case False
        with i y(1) I(3) show ?thesis by simp
      next
        case True
        with i y(1) have k': "k' = End_Unmatched sess now" by simp
        with moved(2) obtain now' where k: "k = End_Begun sess now'"
          by (cases k) (auto simp: Let_def split: prod.splits sum.splits option.splits if_splits)
        have "session_call (cs n) = Some (End_Call sess)" using I(2) [OF moved(1)] k by simp
        then have "conn_session (cs n) = Some sess" by (cases "cs n") auto
        then have "pg_server.holds p cs n m (pg_time_in p (sess_connected_at sess))"
          if "pg_uuid_in p (sess_machine_id sess) = Some m" for m
          using that by (simp add: pg_server.holds_def)
        from unmatched_stale [OF I(4) moved(2) [unfolded k k'] this] show ?thesis by blast
      qed
      with view show "pg_store.stale p sess w'" by (simp add: pg_store.stale_def)
    next
      show "pg_server.accounted (pg_server.holds p cs) D (pg_view w')" unfolding view by (rule I(4))
    qed
  qed simp
qed

lemma call_answered_ok:
  assumes ok: "server_ok p (cs, D, ts, ls, w)" and adv: "advance p c n (ts, ls, w) = Some (Some a, ts', ls', w')"
  shows "server_ok p (cs(n := conn_answer reply (cs n) a), (D \<union> doubted p (cs n) a) - settled p (cs n) a,
    ts', ls', w')"
proof -
  note I = server_okD [OF ok]
  note D = sessions_okD [OF I(1)]
  from adv show ?thesis
  proof (cases rule: advance_cases)
    case (answered k r w2)
    then have y: "ts' = ts(n := None)" "w' = w2" "a = r" by simp_all
    note st = answered(2) [folded y(2,3)]
    note call = I(2) [OF answered(1)]
    note step = statement [OF adv]
    have sok: "sessions_ok p (ts', ls', w')" by (rule sessions_step_ok [OF step I(1)])
    show ?thesis
    proof (rule server_okI [OF sok])
      fix i x assume "ts' i = Some x"
      then show "session_call ((cs(n := conn_answer reply (cs n) a)) i) = Some (call_of x)"
        using I(2) [of i x] y(1) by (cases "i = n") auto
    next
      fix i sess now assume "ts' i = Some (End_Unmatched sess now)"
      then have "pg_store.stale p sess w" using I(3) [of i] y(1) by (cases "i = n") auto
      then show "pg_store.stale p sess w'" by (rule sessions_step_stale [OF step I(1)])
    next
      from answer_kind [OF st] consider (starts) mid s where "call_of k = Start_Call mid" "a = Started s"
        | (ends) sess s where "call_of k = End_Call sess" "a = Ended s" by blast
      then show "pg_server.accounted (pg_server.holds p (cs(n := conn_answer reply (cs n) a)))
          ((D \<union> doubted p (cs n) a) - settled p (cs n) a) (pg_view w')"
      proof cases
        case starts
        with call obtain c' ident where cs: "cs n = Starting c' ident" "mid = id_machine_id ident"
          by (cases "cs n") auto
        have law: "pg_lawful p" using D(1) by (simp add: pg_ok_def)
        show ?thesis
          unfolding starts(2)
          by (rule start_answered [OF D(2) D(3) [OF answered(1)] law _ st [unfolded starts(2)] cs(1) I(4)])
             (simp add: starts(1) cs(2))
      next
        case ends
        have none: "settled p (cs n) (Ended s) = {}" by (simp add: settled_def)
        show ?thesis
          unfolding ends(2) none Diff_empty
          by (rule end_answered [OF D(3) [OF answered(1)] ends(1) st [unfolded ends(2)] _ _ I(4)])
             (use I(3) [of n] answered(1) call ends(1) in auto)
      qed
    qed
  qed simp
qed

lemma handler_step_ok:
  assumes "handler_step ext p reply x y" "server_ok p x"
  shows "server_ok p y"
  using assms
proof (induction rule: handler_step.induct)
  case (begin_call ts n cs k D ls w)
  note I = server_okD [OF begin_call(3)]
  have sok: "sessions_ok p (ts(n \<mapsto> k), ls, w)"
    by (rule called_ok [OF I(1) begin_call(1)]) (use begin_call(2) in \<open>cases "cs n"; auto\<close>)+
  show ?case
  proof (rule server_okI [OF sok])
    fix i x assume "(ts(n \<mapsto> k)) i = Some x"
    then show "session_call (cs i) = Some (call_of x)"
      using I(2) [of i x] begin_call(2) call_of_session_call [OF begin_call(2)] by (cases "i = n") auto
  next
    fix i sess now assume "(ts(n \<mapsto> k)) i = Some (End_Unmatched sess now)"
    moreover have "k \<noteq> End_Unmatched sess now" using begin_call(2) by (cases "cs n") auto
    ultimately show "pg_store.stale p sess w" using I(3) [of i] by (cases "i = n") auto
  qed (rule I(4))
next
  case (next_statement c n x y cs D)
  then show ?case by (cases x; cases y) (auto intro: next_statement_ok simp del: advance.simps)
next
  case (call_answered c n x a y cs D)
  then show ?case by (cases x; cases y) (auto intro: call_answered_ok simp del: advance.simps)
next
  case (other_step cs n ev w k' w' ls D ts)
  note I = server_okD [OF other_step(4)]
  note pl = other_step_plain [OF other_step(1,2)]
  have none: "ts n = None" using I(2) [of n] other_step(1) by (cases "ts n") auto
  have sok: "sessions_ok p (ts, ls, w')"
    using pl I(1) plain_ok [OF I(1) _ other_step(3)] by blast
  show ?case
  proof (rule server_okI [OF sok])
    fix i x assume i: "ts i = Some x"
    with none have "i \<noteq> n" by auto
    with I(2) [OF i] show "session_call ((cs(n := k')) i) = Some (call_of x)" by simp
  next
    fix i sess now assume "ts i = Some (End_Unmatched sess now)"
    with I(3) [OF this] pl show "pg_store.stale p sess w'" by (simp add: pg_store.stale_def)
  next
    show "pg_server.accounted (pg_server.holds p (cs(n := k'))) D (pg_view w')"
      using I(4) pl holds_same [of k' cs n p] by simp
  qed
next
  case (agent_enrolls c se w r w' cs D ts ls)
  note I = server_okD [OF agent_enrolls(2)]
  have pl: "plain_call p w w'" by (rule call_enroll [OF agent_enrolls(1)])
  have keep: "locks_kept ls w w'" by (rule enroll_keeps_locks [OF I(1) agent_enrolls(1)])
  show ?case
  proof (rule server_okI [OF plain_ok [OF I(1) pl keep]])
    fix i sess now assume "ts i = Some (End_Unmatched sess now)"
    from I(3) [OF this] show "pg_store.stale p sess w'"
      by (rule sessions_step_stale [OF sessions_step.plain [OF pl keep] I(1)])
  next
    show "pg_server.accounted (pg_server.holds p cs) D (pg_view w')"
      using I(4) plain_call_effect [OF pl] by (auto intro: pg_server.accounted_enrolled)
  qed (rule I(2))
qed

lemma streams_step_ok:
  assumes "streams_step ext p reply x y" "server_ok p x"
  shows "server_ok p y"
  using assms
proof (induction rule: streams_step.induct)
  case (handled x y)
  then show ?case by (rule handler_step_ok)
next
  case (server_restarts x)
  obtain cs D ts ls w where x: "x = (cs, D, ts, ls, w)" by (cases x)
  have "sessions_ok p (\<lambda>_. None, \<lambda>_. None, w)"
    by (rule sessions_step_ok [OF sessions_step.crash server_okD(1) [OF server_restarts [unfolded x]]])
  moreover have "pg_server.accounted (pg_server.holds p (\<lambda>_. Awaiting)) (machines_online w) (pg_view w)"
    by (auto simp: pg_server.accounted_def pg_server.holds_def pg_view_def machines_online_def)
  ultimately show ?case unfolding x restarted_simps by (intro server_okI) simp_all
qed

lemma streams_reachable_ok:
  assumes "streams_reachable ext p reply x" "pg_lawful p"
  shows "server_ok p x"
  using assms
proof (induction rule: streams_reachable.induct)
  case (no_stream fs)
  have "sessions_ok p (\<lambda>_. None, \<lambda>_. None, empty_world fs)"
    by (rule sessions_reachable_ok [OF nothing_yet no_stream])
  moreover have "pg_server.accounted (pg_server.holds p (\<lambda>_. Awaiting)) {} (pg_view (empty_world fs))"
    by (auto simp: pg_server.accounted_def pg_server.holds_def pg_view_def empty_world_def empty_tables_def)
  ultimately show ?case by (intro server_okI) simp_all
next
  case (stream_step x y)
  then show ?case by (blast intro: streams_step_ok)
qed

text \<open>The invariant read off the rows.\<close>

lemma presence_accurate:
  assumes "pg_lawful p" "streams_reachable ext p reply (cs, D, ts, ls, w)" "m \<notin> D"
  shows "(\<exists>row. tb_machines (w_db w) m = Some row \<and> m_status row = Online) \<longleftrightarrow>
    (\<exists>n sess row. conn_session (cs n) = Some sess \<and> pg_uuid_in p (sess_machine_id sess) = Some m \<and>
       tb_machines (w_db w) m = Some row \<and>
       m_last_connected_at row = Some (pg_time_in p (sess_connected_at sess)))"
  using pg_server.accounted_status [OF server_okD(4) [OF streams_reachable_ok [OF assms(2,1)]] assms(3)]
  by (auto simp: pg_view_def pg_server.holds_def)

section \<open>Properties\<close>

text \<open>C3: the presence shown is true at every moment between two statements: with any number of streams whose
  session calls interleave statement by statement, and over restarts of the server: a machine is \<open>online\<close>
  exactly when some open stream holds its latest session, unless, since its last successful session
  start, a session start or end of it has reported an error or the server was restarted while it was
  online.\<close>

theorem presence_follows_statements:
  assumes "pg_lawful p" "streams_reachable ext p reply (cs, D, ts, ls, w)" "m \<notin> D"
  shows "(\<exists>row. tb_machines (w_db w) m = Some row \<and> m_status row = Online) \<longleftrightarrow>
    (\<exists>n sess row. conn_session (cs n) = Some sess \<and> pg_uuid_in p (sess_machine_id sess) = Some m \<and>
       tb_machines (w_db w) m = Some row \<and>
       m_last_connected_at row = Some (pg_time_in p (sess_connected_at sess)))"
  by (rule presence_accurate [OF assms])

text \<open>The database stays consistent under the same interleavings, and the sessions' calls keep being
  answered.\<close>

lemma streams_reachable_schema:
  assumes "pg_lawful p" "streams_reachable ext p reply (cs, D, ts, ls, w)"
  shows "schema_ok p (w_db w)"
  using server_okD(1) [OF streams_reachable_ok [OF assms(2,1)]] sessions_okD(2)
  by (auto simp: world_ok_def)

section \<open>Witnesses\<close>

text \<open>The four statements of a session start.\<close>

lemma start_statements_run:
  assumes "w_faults w = []" "tb_machines (w_db w) 0 = Some row" "m_status row = Unknown"
  shows "\<exists>x1 x2 x3 w4 t.
    advance sample_pg background 0 ((\<lambda>_. None)(0 \<mapsto> Start_Call (bits_text 0)), \<lambda>_. None, w) = Some (None, x1) \<and>
    advance sample_pg background 0 x1 = Some (None, x2) \<and>
    advance sample_pg background 0 x2 = Some (None, x3) \<and>
    advance sample_pg background 0 x3 = Some (Some (Started (Inr t)), \<lambda>_. None, \<lambda>_. None, w4) \<and>
    (\<exists>row. tb_machines (w_db w4) 0 = Some row \<and> m_last_connected_at row = Some (pg_time_in sample_pg t))"
  using assms pg_lawfulD(4) [OF sample_pg_lawful] by (simp add: session_evaluation)

lemma handlers_reachable:
  "(handler_step ext p reply)\<^sup>*\<^sup>* x y \<Longrightarrow> streams_reachable ext p reply x \<Longrightarrow> streams_reachable ext p reply y"
  by (induction rule: rtranclp_induct) (auto intro: stream_step handled)

text \<open>An agent enrolls, and its stream starts a session.\<close>

lemma demo_handlers:
  "\<exists>cs w sess. (handler_step sample_externals sample_pg None)\<^sup>*\<^sup>*
       (\<lambda>_. Awaiting, {}, \<lambda>_. None, \<lambda>_. None, empty_world []) (cs, {}, \<lambda>_. None, \<lambda>_. None, w) \<and>
     (\<forall>n. n \<noteq> 0 \<longrightarrow> cs n = Awaiting) \<and> conn_session (cs 0) = Some sess \<and> pg_uuid_in sample_pg (sess_machine_id sess) = Some 0 \<and>
     (\<exists>row. tb_machines (w_db w) 0 = Some row \<and>
        m_last_connected_at row = Some (pg_time_in sample_pg (sess_connected_at sess)))"
proof -
  let ?step = "handler_step sample_externals sample_pg None"
  let ?run = "?step\<^sup>*\<^sup>* (\<lambda>_. Awaiting, {}, \<lambda>_. None, \<lambda>_. None, empty_world [])"
  obtain se res w1 row ev ident where e: "pg_enroll sample_pg background se (empty_world []) = (res, w1)"
    "w_faults w1 = []" "tb_machines (w_db w1) 0 = Some row" "m_status row = Unknown"
    and ident: "id_machine_id ident = bits_text 0"
    and s1: "conn_step sample_externals (pg_presence_store sample_pg) (pg_telemetry_store sample_pg) None ev
      Awaiting w1 = (Starting background ident, w1)"
    using demo_starting by blast
  let ?cs = "(\<lambda>_. Awaiting)(0 := Starting background ident)"
  from start_statements_run [OF e(2-4)] obtain x1 x2 x3 w4 t where
    a: "advance sample_pg background 0 ((\<lambda>_. None)(0 \<mapsto> Start_Call (bits_text 0)), \<lambda>_. None, w1) = Some (None, x1)"
      "advance sample_pg background 0 x1 = Some (None, x2)"
      "advance sample_pg background 0 x2 = Some (None, x3)"
      "advance sample_pg background 0 x3 = Some (Some (Started (Inr t)), \<lambda>_. None, \<lambda>_. None, w4)"
    and row4: "\<exists>row. tb_machines (w_db w4) 0 = Some row \<and> m_last_connected_at row = Some (pg_time_in sample_pg t)"
    by blast
  let ?sess = "\<lparr>sess_machine_id = bits_text 0, sess_agent_id = id_agent_id ident, sess_connected_at = t\<rparr>"
  have "?run (\<lambda>_. Awaiting, {}, \<lambda>_. None, \<lambda>_. None, w1)"
    by (rule r_into_rtranclp [of ?step, OF agent_enrolls [OF e(1)]])
  moreover have "?step (\<lambda>_. Awaiting, {}, \<lambda>_. None, \<lambda>_. None, w1) (?cs, {}, \<lambda>_. None, \<lambda>_. None, w1)"
    by (rule other_step [OF _ s1]; simp add: locks_kept_def)
  moreover have "?step (?cs, {}, \<lambda>_. None, \<lambda>_. None, w1)
      (?cs, {}, (\<lambda>_. None)(0 \<mapsto> Start_Call (bits_text 0)), \<lambda>_. None, w1)"
    by (rule begin_call; simp add: ident)
  moreover note next_statement [OF a(1), of sample_externals None ?cs "{}"]
    next_statement [OF a(2), of sample_externals None ?cs "{}"]
    next_statement [OF a(3), of sample_externals None ?cs "{}"]
  moreover have "?step (?cs, {}, x3) (?cs(0 := Receiving ?sess), {}, \<lambda>_. None, \<lambda>_. None, w4)"
    using handler_step.call_answered [OF a(4), of sample_externals None ?cs "{}"]
    by (auto simp: doubted_def ident)
  ultimately have "?run (?cs(0 := Receiving ?sess), {}, \<lambda>_. None, \<lambda>_. None, w4)"
    by (meson rtranclp.rtrancl_into_rtrancl)
  with row4 show ?thesis
    by (intro exI [of _ "?cs(0 := Receiving ?sess)"] exI [of _ w4] exI [of _ ?sess]) simp
qed

theorem presence_follows_statements_witness:
  "\<exists>cs w row. streams_reachable sample_externals sample_pg None (cs, {}, \<lambda>_. None, \<lambda>_. None, w) \<and>
     conn_session (cs 0) \<noteq> None \<and> tb_machines (w_db w) 0 = Some row \<and> m_status row = Online"
proof -
  obtain cs w sess where d: "(handler_step sample_externals sample_pg None)\<^sup>*\<^sup>*
       (\<lambda>_. Awaiting, {}, \<lambda>_. None, \<lambda>_. None, empty_world []) (cs, {}, \<lambda>_. None, \<lambda>_. None, w)"
    "conn_session (cs 0) = Some sess" "pg_uuid_in sample_pg (sess_machine_id sess) = Some 0"
    "\<exists>row. tb_machines (w_db w) 0 = Some row \<and>
        m_last_connected_at row = Some (pg_time_in sample_pg (sess_connected_at sess))"
    using demo_handlers by blast
  have r: "streams_reachable sample_externals sample_pg None (cs, {}, \<lambda>_. None, \<lambda>_. None, w)"
    by (rule handlers_reachable [OF d(1) no_stream])
  with presence_follows_statements [OF sample_pg_lawful r, of 0] d(2-4) show ?thesis by blast
qed

end
