(* ===== verification/Draining.thy ===== *)
theory Draining
  imports Concurrent_Server
begin

text \<open>
  The streams of a server that is being stopped: once every \<open>Recv\<close> fails, as it does after
  \<open>GracefulStop\<close> has run out of time and \<open>Stop\<close> has closed the connections, each handler closes its
  session and returns. The steps are those of theory Concurrent_Server, restricted; a measure counts
  what is left of each handler.
\<close>

section \<open>Steps of a server whose connections are closed\<close>

text \<open>\<open>A\<close> are the streams that were opened; no other is opened any more.\<close>

inductive drain_step ::
  "externals \<Rightarrow> pg \<Rightarrow> go_error option \<Rightarrow> nat set \<Rightarrow> server_sessions \<Rightarrow> server_sessions \<Rightarrow> bool"
  for ext p reply A where
  drain_call: "n \<in> A \<Longrightarrow> ts n = None \<Longrightarrow> session_call (cs n) = Some k \<Longrightarrow>
    drain_step ext p reply A (cs, D, ts, ls, w) (cs, D, ts(n \<mapsto> k), ls, w)"
| drain_statement: "n \<in> A \<Longrightarrow> advance p c n x = Some (None, y) \<Longrightarrow>
    drain_step ext p reply A (cs, D, x) (cs, D, y)"
| drain_answer: "n \<in> A \<Longrightarrow> advance p c n x = Some (Some a, y) \<Longrightarrow>
    drain_step ext p reply A (cs, D, x)
      (cs(n := conn_answer reply (cs n) a), (D \<union> doubted p (cs n) a) - settled p (cs n) a, y)"
| drain_recv: "n \<in> A \<Longrightarrow> in_recv (cs n) \<Longrightarrow> ev_result ev = Inl e \<Longrightarrow>
    conn_step ext (pg_presence_store p) (pg_telemetry_store p) reply ev (cs n) w = (k', w') \<Longrightarrow>
    drain_step ext p reply A (cs, D, ts, ls, w) (cs(n := k'), D, ts, ls, w')"
| drain_touch: "n \<in> A \<Longrightarrow> cs n = Touching c sess \<Longrightarrow>
    conn_step ext (pg_presence_store p) (pg_telemetry_store p) reply ev (cs n) w = (k', w') \<Longrightarrow>
    locks_kept ls w w' \<Longrightarrow>
    drain_step ext p reply A (cs, D, ts, ls, w) (cs(n := k'), D, ts, ls, w')"

lemma failed_recv:
  assumes "in_recv k" "ev_result ev = Inl e" "conn_step ext ps ts reply ev k w = (k', w')"
  shows "w' = w \<and> ((\<exists>r. k' = Done r) \<and> k = Awaiting \<or>
    (\<exists>sess. k = Receiving sess \<and> ((\<exists>e. k' = Closing sess e) \<or> k' = Closing_Eof sess)))"
  using assms by (cases k) (auto split: if_splits)

lemma in_recv_call: "in_recv k \<Longrightarrow> session_call k = None"
  by (cases k) simp_all

lemma drain_handler: "drain_step ext p reply A x y \<Longrightarrow> handler_step ext p reply x y"
proof (induction rule: drain_step.induct)
  case (drain_recv n cs ev e w k' w' D ts ls)
  have "w' = w" using failed_recv [OF drain_recv(2-4)] by simp
  with drain_recv show ?case
    by (auto intro!: other_step simp: in_recv_call locks_kept_def)
qed (auto intro: begin_call next_statement call_answered other_step)

section \<open>What is left of a handler\<close>

fun handler_rank :: "conn \<Rightarrow> txn option \<Rightarrow> nat" where
  "handler_rank (Done r) t = 0"
| "handler_rank Awaiting t = 1"
| "handler_rank (Closing sess e) t = (case t of None \<Rightarrow> 5 | Some k \<Rightarrow> txn_rank k)"
| "handler_rank (Closing_Eof sess) t = (case t of None \<Rightarrow> 5 | Some k \<Rightarrow> txn_rank k)"
| "handler_rank (Receiving sess) t = 6"
| "handler_rank (Touching c sess) t = 7"
| "handler_rank (Starting c ident) t = (case t of None \<Rightarrow> 11 | Some k \<Rightarrow> 6 + txn_rank k)"

definition drain_bound :: nat where
  "drain_bound = 11"

definition handlers_left :: "nat set \<Rightarrow> server_sessions \<Rightarrow> nat" where
  "handlers_left A = (\<lambda>(cs, D, ts, ls, w). \<Sum>n \<in> A. handler_rank (cs n) (ts n))"

lemma txn_rank_bounds: "0 < txn_rank k" "txn_rank k \<le> 4"
  by (cases k; simp)+

lemma handler_rank_bound: "handler_rank k t \<le> drain_bound"
proof -
  have "txn_rank x \<le> 5" "txn_rank x \<le> 11" for x
    using txn_rank_bounds(2) [of x] by simp_all
  then show ?thesis by (cases k; cases t) (simp_all add: drain_bound_def)
qed

lemma handlers_left_bound: "handlers_left A x \<le> drain_bound * card A"
proof -
  obtain cs D ts ls w where x: "x = (cs, D, ts, ls, w)" by (cases x)
  have "(\<Sum>n \<in> A. handler_rank (cs n) (ts n)) \<le> card A * drain_bound"
    using sum_bounded_above [of A "\<lambda>n. handler_rank (cs n) (ts n)" drain_bound] handler_rank_bound
    by simp
  then show ?thesis by (simp add: x handlers_left_def mult.commute)
qed

lemma handlers_left_less:
  assumes "finite A" "n \<in> A" "handler_rank (cs' n) (ts' n) < handler_rank (cs n) (ts n)"
    and "\<And>i. i \<noteq> n \<Longrightarrow> cs' i = cs i \<and> ts' i = ts i"
  shows "handlers_left A (cs', D', ts', ls', w') < handlers_left A (cs, D, ts, ls, w)"
proof -
  have "(\<Sum>i \<in> A. handler_rank (cs' i) (ts' i)) < (\<Sum>i \<in> A. handler_rank (cs i) (ts i))"
  proof (rule sum_strict_mono_ex1 [OF assms(1)])
    show "\<forall>i \<in> A. handler_rank (cs' i) (ts' i) \<le> handler_rank (cs i) (ts i)"
    proof
      fix i
      show "handler_rank (cs' i) (ts' i) \<le> handler_rank (cs i) (ts i)"
        using assms(3,4) by (cases "i = n") auto
    qed
    show "\<exists>i \<in> A. handler_rank (cs' i) (ts' i) < handler_rank (cs i) (ts i)" using assms(2,3) by blast
  qed
  then show ?thesis by (simp add: handlers_left_def)
qed

text \<open>A call that is answered leaves less than the call.\<close>

lemma answer_rank:
  assumes "session_call k = Some (call_of t)" "txn_step p c t w = (Inl a, w')"
  shows "handler_rank (conn_answer reply k a) None < handler_rank k (Some t)"
  using answer_kind [OF assms(2)]
proof (elim disjE conjE exE)
  fix mid r assume "call_of t = Start_Call mid" "a = Started r"
  with assms(1) obtain c' ident where "k = Starting c' ident" by (cases k) auto
  with \<open>a = Started r\<close> txn_rank_bounds(1) [of t] show ?thesis by (cases r) simp_all
next
  fix sess r assume "call_of t = End_Call sess" "a = Ended r"
  with assms(1) consider e where "k = Closing sess e" | "k = Closing_Eof sess" by (cases k) auto
  then show ?thesis using \<open>a = Ended r\<close> txn_rank_bounds(1) [of t] by cases (cases r; simp)+
qed

lemma statement_rank:
  assumes "session_call k = Some (call_of t)" "txn_rank t' < txn_rank t"
  shows "handler_rank k (Some t') < handler_rank k (Some t)"
  using assms by (cases k) simp_all

lemma call_rank:
  assumes "session_call k = Some call"
  shows "handler_rank k (Some call) < handler_rank k None"
  using assms txn_rank_bounds(2) [of call] by (cases k) simp_all

lemma drain_step_less:
  assumes "drain_step ext p reply A x y" "server_ok p x" "finite A"
  shows "handlers_left A y < handlers_left A x"
  using assms
proof (induction rule: drain_step.induct)
  case (drain_call n ts cs k D ls w)
  show ?case
    by (rule handlers_left_less [OF drain_call(5,1)]) (use call_rank [OF drain_call(3)] drain_call(2) in simp_all)
next
  case (drain_statement n c x y cs D)
  obtain ts ls w where x: "x = (ts, ls, w)" by (cases x)
  note I = server_okD [OF drain_statement(3) [unfolded x]]
  from drain_statement(2) [unfolded x] show ?case
  proof (cases rule: advance_cases)
    case (moved k k' w' ls')
    show ?thesis
      unfolding x moved(4)
      by (rule handlers_left_less [OF drain_statement(4,1)])
         (use statement_rank [OF I(2) [OF moved(1)] txn_step_rank [OF moved(2)]] moved(1) in simp_all)
  qed simp
next
  case (drain_answer n c x a y cs D)
  obtain ts ls w where x: "x = (ts, ls, w)" by (cases x)
  note I = server_okD [OF drain_answer(3) [unfolded x]]
  from drain_answer(2) [unfolded x] show ?case
  proof (cases rule: advance_cases)
    case (answered k r w')
    show ?thesis
      unfolding x answered(4)
      by (rule handlers_left_less [OF drain_answer(4,1)])
         (use answer_rank [OF I(2) [OF answered(1)] answered(2)] answered(1,3) in simp_all)
  qed simp
next
  case (drain_recv n cs ev e w k' w' D ts ls)
  note I = server_okD [OF drain_recv(5)]
  have "ts n = None" using I(2) [of n] in_recv_call [OF drain_recv(2)] by (cases "ts n") auto
  with failed_recv [OF drain_recv(2-4)] show ?case
    by (intro handlers_left_less [OF drain_recv(6,1)]) auto
next
  case (drain_touch n cs c sess ev w k' w' ls D ts)
  from drain_touch(2,3) have "k' = Receiving sess \<or> (\<exists>e. k' = Closing sess e)"
    by (auto split: prod.splits option.splits)
  moreover have "ts n = None" using server_okD(2) [OF drain_touch(5), of n] drain_touch(2) by (cases "ts n") auto
  ultimately show ?case
    using drain_touch(2) by (intro handlers_left_less [OF drain_touch(6,1)]) auto
qed

section \<open>Something can happen\<close>

lemma advance_enabled:
  assumes "sessions_ok p (ts, ls, w)" "ts n = Some k" "free_for ls n (target p k)"
  shows "\<exists>a y. advance p c n (ts, ls, w) = Some (a, y)"
proof -
  note D = sessions_okD [OF assms(1)]
  obtain r w' where st: "txn_step p c k w = (r, w')" by force
  show ?thesis
  proof (cases r)
    case (Inl a)
    with st assms(2) show ?thesis by simp
  next
    case (Inr k')
    have "txn_ok p w' k'"
      using txn_step_moves [OF D(1) D(3) [OF assms(2)] D(6) st [unfolded Inr]] by simp
    then have "ls m = None \<or> ls m = Some n" if "locked k' = Some m" for m
      using locked_target [OF _ that] target_kept [OF st [unfolded Inr]] assms(3) by (simp add: free_for_def)
    with st Inr assms(2) show ?thesis by (auto split: option.split)
  qed
qed

text \<open>The handlers outside \<open>A\<close> are not running.\<close>

definition only_running :: "nat set \<Rightarrow> server_sessions \<Rightarrow> bool" where
  "only_running A = (\<lambda>(cs, D, ts, ls, w). \<forall>n. n \<notin> A \<longrightarrow> cs n = Awaiting \<or> (\<exists>r. cs n = Done r))"

definition all_returned :: "nat set \<Rightarrow> server_sessions \<Rightarrow> bool" where
  "all_returned A = (\<lambda>(cs, D, ts, ls, w). \<forall>n \<in> A. \<exists>r. cs n = Done r)"

lemma drain_advance:
  assumes "server_ok p (cs, D, ts, ls, w)" "n \<in> A" "ts n = Some k" "free_for ls n (target p k)"
  shows "\<exists>y. drain_step ext p reply A (cs, D, ts, ls, w) y"
proof -
  obtain a y where adv: "advance p background n (ts, ls, w) = Some (a, y)"
    using advance_enabled [OF server_okD(1) [OF assms(1)] assms(3,4)] by blast
  show ?thesis
  proof (cases a)
    case None
    with adv show ?thesis by (blast intro: drain_statement [OF assms(2)])
  next
    case (Some r)
    with adv show ?thesis by (blast intro: drain_answer [OF assms(2)])
  qed
qed

lemma drain_progress:
  assumes ok: "server_ok p x" and run: "only_running A x" and left: "\<not> all_returned A x"
  shows "\<exists>y. drain_step ext p reply A x y"
proof -
  obtain cs D ts ls w where x: "x = (cs, D, ts, ls, w)" by (cases x)
  note I = server_okD [OF ok [unfolded x]]
  have inA: "n \<in> A" if "ts n = Some k" for n k
    using I(2) [OF that] run by (auto simp: only_running_def x)
  show ?thesis
  proof (cases "\<exists>m n. ls m = Some n")
    case True
    then obtain m n where m: "ls m = Some n" by blast
    with sessions_okD(4) [OF I(1), of m n] obtain k where k: "ts n = Some k" "locked k = Some m" by auto
    have "free_for ls n (target p k)"
      using locked_target [OF sessions_okD(3) [OF I(1) k(1)] k(2)] m by (simp add: free_for_def)
    with drain_advance [OF ok [unfolded x] inA [OF k(1)] k(1)] show ?thesis by (simp add: x)
  next
    case False
    then have free: "ls m = None" for m by (cases "ls m") auto
    from left obtain n where n: "n \<in> A" "\<And>r. cs n \<noteq> Done r" by (auto simp: all_returned_def x)
    show ?thesis
    proof (cases "ts n")
      case (Some k)
      have "free_for ls n (target p k)" using free by (simp add: free_for_def)
      with drain_advance [OF ok [unfolded x] n(1) Some] show ?thesis by (simp add: x)
    next
      case None
      consider (call) k where "session_call (cs n) = Some k" | (recv) "in_recv (cs n)"
        | (touch) c sess where "cs n = Touching c sess"
        using n(2) by (cases "cs n") auto
      then show ?thesis
      proof cases
        case call
        from drain_call [where ts = ts and cs = cs, OF n(1) None call] show ?thesis unfolding x by blast
      next
        case recv
        let ?ev = "\<lparr>ev_ctx = background, ev_result = Inl (Sentinel EOF)\<rparr>"
        obtain k' w' where "conn_step ext (pg_presence_store p) (pg_telemetry_store p) reply ?ev (cs n) w = (k', w')"
          by force
        from drain_recv [where cs = cs, OF n(1) recv _ this] show ?thesis unfolding x by simp blast
      next
        case touch
        obtain k' w' where "conn_step ext (pg_presence_store p) (pg_telemetry_store p) reply undefined (cs n) w = (k', w')"
          by force
        from drain_touch [where cs = cs, OF n(1) touch this, of ls] free show ?thesis
          unfolding x by (simp add: locks_kept_def) blast
      qed
    qed
  qed
qed

lemma drain_only_running: "drain_step ext p reply A x y \<Longrightarrow> only_running A x \<Longrightarrow> only_running A y"
  by (induction rule: drain_step.induct) (auto simp: only_running_def)

text \<open>So the handlers can all be run to their end.\<close>

lemma drain_to_rest:
  assumes "server_ok p x" "only_running A x" "finite A"
  shows "\<exists>y. (drain_step ext p reply A)\<^sup>*\<^sup>* x y \<and> only_running A y \<and> all_returned A y"
  using assms(1,2)
proof (induction x rule: measure_induct_rule [where f = "handlers_left A"])
  case (less x)
  show ?case
  proof (cases "all_returned A x")
    case True
    with less.prems show ?thesis by blast
  next
    case False
    obtain y where y: "drain_step ext p reply A x y"
      using drain_progress [OF less.prems False] by blast
    from less.IH [OF drain_step_less [OF y less.prems(1) assms(3)]
        handler_step_ok [OF drain_handler [OF y] less.prems(1)] drain_only_running [OF y less.prems(2)]]
      y show ?thesis by (meson converse_rtranclp_into_rtranclp)
  qed
qed

lemma drain_run:
  assumes "(drain_step ext p reply A ^^ j) x y" "server_ok p x" "only_running A x" "finite A"
  shows "server_ok p y \<and> only_running A y \<and> j + handlers_left A y \<le> handlers_left A x"
  using assms(1)
proof (induction j arbitrary: y)
  case 0
  with assms(2,3) show ?case by simp
next
  case (Suc j)
  then obtain z where z: "(drain_step ext p reply A ^^ j) x z" "drain_step ext p reply A z y" by auto
  from Suc.IH [OF z(1)] have IH: "server_ok p z" "only_running A z"
    "j + handlers_left A z \<le> handlers_left A x" by simp_all
  from handler_step_ok [OF drain_handler [OF z(2)] IH(1)] drain_only_running [OF z(2) IH(2)]
    drain_step_less [OF z(2) IH(1) assms(4)] IH(3)
  show ?case by simp
qed

section \<open>Properties\<close>

text \<open>C5: a server whose connections are closed comes to rest: from every reachable state, in whatever order
  the handlers that are running take their steps, with any faults and any waiting for row locks, at most
  eleven steps per handler happen, and when no step is left every handler has returned. So the wait for
  \<open>GracefulStop\<close> after \<open>Stop\<close> ends.\<close>

theorem streams_drain:
  assumes "pg_lawful p" "streams_reachable ext p reply x" "finite A" "only_running A x"
    and "(drain_step ext p reply A ^^ j) x y"
  shows "j \<le> drain_bound * card A \<and>
    ((\<forall>z. \<not> drain_step ext p reply A y z) \<longrightarrow> all_returned A y)"
proof -
  note run = drain_run [OF assms(5) streams_reachable_ok [OF assms(2,1)] assms(4,3)]
  have "j \<le> handlers_left A x" using run by simp
  with handlers_left_bound [of A x] have "j \<le> drain_bound * card A" by simp
  moreover have "all_returned A y" if "\<forall>z. \<not> drain_step ext p reply A y z"
    using drain_progress [of p y A ext reply] run that by blast
  ultimately show ?thesis by blast
qed

section \<open>Witnesses\<close>

text \<open>The stream of the demonstration is closed: its \<open>Recv\<close> fails.\<close>

theorem streams_drain_witness:
  "\<exists>x y. streams_reachable sample_externals sample_pg None x \<and> \<not> all_returned {0} x \<and>
     drain_step sample_externals sample_pg None {0} x y \<and> 1 \<le> drain_bound * card {0 :: nat}"
proof -
  obtain cs w sess where d: "(handler_step sample_externals sample_pg None)\<^sup>*\<^sup>*
       (\<lambda>_. Awaiting, {}, \<lambda>_. None, \<lambda>_. None, empty_world []) (cs, {}, \<lambda>_. None, \<lambda>_. None, w)"
    "conn_session (cs 0) = Some sess" "\<forall>n. n \<noteq> 0 \<longrightarrow> cs n = Awaiting"
    using demo_handlers by blast
  let ?x = "(cs, {}, \<lambda>_. None, \<lambda>_. None, w) :: server_sessions"
  have r: "streams_reachable sample_externals sample_pg None ?x"
    by (rule handlers_reachable [OF d(1) no_stream])
  have run: "only_running {0} ?x" using d(3) by (simp add: only_running_def)
  have left: "\<not> all_returned {0} ?x" using d(2) by (auto simp: all_returned_def)
  obtain y where y: "drain_step sample_externals sample_pg None {0} ?x y"
    using drain_progress [OF streams_reachable_ok [OF r sample_pg_lawful] run left] by blast
  have "1 \<le> drain_bound * card {0 :: nat}"
    using streams_drain [OF sample_pg_lawful r _ run, of 1 y] y by (simp add: eq_OO)
  with r left y show ?thesis by blast
qed

end
