(* ===== verification/Shutdown.thy ===== *)
theory Shutdown
  imports Draining Lifecycle
begin

text \<open>
  The two halves of the running server together: \<open>serve\<close> and \<open>shutdown\<close> of theory Lifecycle and the
  handlers of theory Concurrent_Server. They meet in \<open>GracefulStop\<close>, which returns once no handler
  is running and lets none begin afterwards, and in \<open>Stop\<close>, which makes every \<open>Recv\<close> fail: what the
  documentation of gRPC says of them. A process may also end at any moment and be started again.
\<close>

section \<open>The running server\<close>

definition no_handler :: "server_sessions \<Rightarrow> bool" where
  "no_handler = (\<lambda>(cs, D, ts, ls, w). \<forall>n. cs n = Awaiting \<or> (\<exists>r. cs n = Done r))"

fun grpc_closed :: "main_pc \<Rightarrow> bool" where
  "grpc_closed (Forced_Grpc se) = True"  \<comment> \<open>\<open>Stop\<close> has been called\<close>
| "grpc_closed _ = False"

inductive system_step ::
  "externals \<Rightarrow> pg \<Rightarrow> go_error option
     \<Rightarrow> lifecycle \<times> server_sessions \<Rightarrow> lifecycle \<times> server_sessions \<Rightarrow> bool"
  for ext p reply where
  application_runs: "lifecycle_step l l' \<Longrightarrow> lc_stop_done l' = lc_stop_done l \<Longrightarrow>
    system_step ext p reply (l, x) (l', x)"
| grpc_stopped: "lifecycle_step l l' \<Longrightarrow> lc_stop_done l' \<Longrightarrow> \<not> lc_stop_done l \<Longrightarrow> no_handler x \<Longrightarrow>
    system_step ext p reply (l, x) (l', x)"
| handlers_run: "\<not> lc_stop_done l \<Longrightarrow> \<not> grpc_closed (lc_main l) \<Longrightarrow> handler_step ext p reply x y \<Longrightarrow>
    system_step ext p reply (l, x) (l, y)"
| handlers_drain: "\<not> lc_stop_done l \<Longrightarrow> grpc_closed (lc_main l) \<Longrightarrow> drain_step ext p reply UNIV x y \<Longrightarrow>
    system_step ext p reply (l, x) (l, y)"
| started_again: "system_step ext p reply (l, x) (initial_lifecycle, restarted x)"

inductive system_reachable ::
  "externals \<Rightarrow> pg \<Rightarrow> go_error option \<Rightarrow> lifecycle \<times> server_sessions \<Rightarrow> bool"
  for ext p reply where
  first_start: "system_reachable ext p reply
    (initial_lifecycle, \<lambda>_. Awaiting, {}, \<lambda>_. None, \<lambda>_. None, empty_world fs)"
| system_step: "system_reachable ext p reply s \<Longrightarrow> system_step ext p reply s t \<Longrightarrow>
    system_reachable ext p reply t"

inductive_cases system_stepE: "system_step ext p reply (l, x) (l', y)"

section \<open>Each half runs as before\<close>

lemma system_run_reachable:
  "(system_step ext p reply)\<^sup>*\<^sup>* s t \<Longrightarrow> system_reachable ext p reply s \<Longrightarrow> system_reachable ext p reply t"
  by (induction rule: rtranclp_induct) (auto intro: system_step)

lemma system_parts:
  assumes "system_reachable ext p reply s"
  shows "lifecycle_reachable (fst s) \<and> streams_reachable ext p reply (snd s) \<and>
    (lc_stop_done (fst s) \<longrightarrow> no_handler (snd s))"
  using assms
proof (induction rule: system_reachable.induct)
  case (first_start fs)
  show ?case by (simp add: no_stream initial_lifecycle_def)
next
  case (system_step s t)
  from system_step(2,3) show ?case
  proof (induction rule: system_step.induct)
    case (application_runs l l' x)
    then show ?case by (auto intro: rtranclp.rtrancl_into_rtrancl)
  next
    case (grpc_stopped l l' x)
    then show ?case by (auto intro: rtranclp.rtrancl_into_rtrancl)
  next
    case (handlers_run l x y)
    then show ?case by (auto intro: stream_step handled)
  next
    case (handlers_drain l x y)
    then show ?case by (auto intro: stream_step handled dest: drain_handler)
  next
    case (started_again l x)
    then show ?case by (auto intro: stream_step server_restarts simp: initial_lifecycle_def)
  qed
qed

text \<open>A server without a running handler shows no machine online but those in doubt.\<close>

lemma no_handler_offline:
  assumes "pg_lawful p" "streams_reachable ext p reply (cs, D, ts, ls, w)" "no_handler (cs, D, ts, ls, w)"
  shows "machines_online w \<subseteq> D"
proof -
  have "conn_session (cs n) = None" for n
    using assms(3) by (auto simp: no_handler_def dest!: spec [of _ n])
  then show ?thesis
    using presence_accurate [OF assms(1,2)] by (fastforce simp: machines_online_def)
qed

text \<open>The application runs beside handlers that stand still, as long as \<open>GracefulStop\<close> has not returned.\<close>

lemma stop_done_kept: "lifecycle_step l l' \<Longrightarrow> lc_stop_done l \<Longrightarrow> lc_stop_done l'"
  by (induction rule: lifecycle_step.induct) simp_all

lemma application_runs_alone:
  assumes "lifecycle_step\<^sup>*\<^sup>* l l'" "\<not> lc_stop_done l'" "system_reachable ext p reply (l, x)"
  shows "system_reachable ext p reply (l', x)"
  using assms(1,2)
proof (induction rule: rtranclp_induct)
  case (step l1 l2)
  then have "\<not> lc_stop_done l1" using stop_done_kept by blast
  with step have "lc_stop_done l2 = lc_stop_done l1" "system_reachable ext p reply (l1, x)" by simp_all
  with step(2) show ?case by (blast intro: system_step application_runs)
qed (use assms(3) in simp)

lemma handlers_run_alone:
  assumes "(handler_step ext p reply)\<^sup>*\<^sup>* x y" "system_reachable ext p reply (initial_lifecycle, x)"
  shows "system_reachable ext p reply (initial_lifecycle, y)"
  using assms
proof (induction rule: rtranclp_induct)
  case (step y z)
  have "\<not> lc_stop_done initial_lifecycle" "\<not> grpc_closed (lc_main initial_lifecycle)"
    by (simp_all add: initial_lifecycle_def)
  from system_step [OF step(3) [OF step(4)] handlers_run [OF this step(2)]] show ?case .
qed simp

text \<open>Once the handlers that run have returned, \<open>GracefulStop\<close> does, and with it \<open>serve\<close>.\<close>

lemma at_rest: "only_running A x \<Longrightarrow> all_returned A x \<Longrightarrow> no_handler x"
  unfolding only_running_def all_returned_def no_handler_def by (cases x) fastforce

lemma graceful_stop_ends:
  assumes "system_reachable ext p reply (l, x)" "lc_stop_called l" "\<not> lc_stop_done l" "no_handler x"
    and "lc_main l = Stopping_Grpc se \<or> lc_main l = Forced_Grpc se"
  shows "\<exists>l'. (system_step ext p reply)\<^sup>*\<^sup>* (l, x) (l', x) \<and> lc_main l' = Returned_Main (serve_result se)"
proof -
  let ?l1 = "l\<lparr>lc_stop_done := True\<rparr>"
  let ?l2 = "?l1\<lparr>lc_main := Returned_Main (serve_result se)\<rparr>"
  have "system_step ext p reply (l, x) (?l1, x)"
    by (rule grpc_stopped [OF stop_returns]) (use assms(2-4) in simp_all)
  moreover have "lifecycle_step ?l1 ?l2"
    using assms(5) stopped [of ?l1 se] forced [of ?l1 se] by auto
  then have "system_step ext p reply (?l1, x) (?l2, x)"
    by (rule application_runs) simp
  ultimately have "(system_step ext p reply)\<^sup>*\<^sup>* (l, x) (?l2, x)"
    by (meson rtranclp.rtrancl_into_rtrancl rtranclp.rtrancl_refl)
  moreover have "lc_main ?l2 = Returned_Main (serve_result se)" by simp
  ultimately show ?thesis by blast
qed

lemma drain_more: "drain_step ext p reply A x y \<Longrightarrow> A \<subseteq> B \<Longrightarrow> drain_step ext p reply B x y"
  by (induction rule: drain_step.induct) (auto intro: drain_step.intros)

lemma handlers_drain_alone:
  assumes "(drain_step ext p reply A)\<^sup>*\<^sup>* x y" "\<not> lc_stop_done l" "grpc_closed (lc_main l)"
  shows "(system_step ext p reply)\<^sup>*\<^sup>* (l, x) (l, y)"
  using assms(1)
proof (induction rule: rtranclp_induct)
  case (step y z)
  from handlers_drain [OF assms(2,3) drain_more [OF step(2)]] step(3) show ?case
    by (meson rtranclp.rtrancl_into_rtrancl top_greatest)
qed simp

text \<open>After \<open>Stop\<close> the server can always come to its end.\<close>

lemma forced_stop_returns:
  assumes "pg_lawful p" "system_reachable ext p reply (l, x)" "lc_main l = Forced_Grpc se"
    and "finite A" "only_running A x"
  shows "\<exists>l' y. (system_step ext p reply)\<^sup>*\<^sup>* (l, x) (l', y) \<and>
    lc_main l' = Returned_Main (serve_result se) \<and> no_handler y"
proof -
  note parts = system_parts [OF assms(2)]
  then have called: "lc_stop_called l" using lifecycle_reachable_ok [of l] assms(3) by (simp add: lifecycle_ok_def)
  show ?thesis
  proof (cases "lc_stop_done l")
    case True
    have "lifecycle_step l (l\<lparr>lc_main := Returned_Main (serve_result se)\<rparr>)" by (rule forced [OF assms(3) True])
    then have "system_step ext p reply (l, x) (l\<lparr>lc_main := Returned_Main (serve_result se)\<rparr>, x)"
      by (rule application_runs) simp
    then have "(system_step ext p reply)\<^sup>*\<^sup>* (l, x) (l\<lparr>lc_main := Returned_Main (serve_result se)\<rparr>, x)"
      by (rule r_into_rtranclp)
    with parts True show ?thesis by fastforce
  next
    case False
    have "Concurrent_Server.server_ok p x" using streams_reachable_ok [of ext p reply x] parts assms(1) by simp
    from drain_to_rest [OF this assms(5,4), of ext reply] obtain y where
      y: "(drain_step ext p reply A)\<^sup>*\<^sup>* x y" "only_running A y" "all_returned A y" by blast
    have run: "(system_step ext p reply)\<^sup>*\<^sup>* (l, x) (l, y)"
      by (rule handlers_drain_alone [OF y(1) False]) (simp add: assms(3))
    from graceful_stop_ends [OF system_run_reachable [OF run assms(2)] called False at_rest [OF y(2,3)], of se] assms(3) run at_rest [OF y(2,3)]
    show ?thesis by (meson rtranclp_trans)
  qed
qed

section \<open>Properties\<close>

text \<open>C4: a clean exit leaves no machine online. Whenever \<open>serve\<close> has returned with anything but a failed
  shutdown of the HTTP server, after any interleaving of the application, the handlers and earlier
  crashes, every machine that is online in the database is one in doubt: since its last successful
  session start, a session call for it has reported an error, or the server was restarted while it was
  online.\<close>

theorem clean_exit_offline:
  assumes "pg_lawful p" "system_reachable ext p reply (l, cs, D, ts, ls, w)"
    and "lc_main l = Returned_Main r" "\<forall>e. r \<noteq> Some (wrap_error ''shut down HTTP server: '' e)"
  shows "machines_online w \<subseteq> D"
proof -
  note parts = system_parts [OF assms(2)]
  then have "lifecycle_ok l" by (simp add: lifecycle_reachable_ok)
  with assms(3,4) have "lc_stop_done l" by (auto simp: lifecycle_ok_def)
  with parts have "streams_reachable ext p reply (cs, D, ts, ls, w)" "no_handler (cs, D, ts, ls, w)" by simp_all
  then show ?thesis by (rule no_handler_offline [OF assms(1)])
qed

text \<open>C6: a failed shutdown of the HTTP server strands machines. A state is reached in which \<open>serve\<close> has
  returned with that error, no session call has ever failed, and the machine of an open stream is
  online; the process ends, and after the next start the machine is online with no stream open.\<close>

theorem failed_exit_strands_machine:
  "\<exists>l cs w. system_reachable sample_externals sample_pg None (l, cs, {}, \<lambda>_. None, \<lambda>_. None, w) \<and>
     lc_main l = Returned_Main (Some (wrap_error ''shut down HTTP server: '' e)) \<and>
     system_step sample_externals sample_pg None (l, cs, {}, \<lambda>_. None, \<lambda>_. None, w)
       (initial_lifecycle, \<lambda>_. Awaiting, machines_online w, \<lambda>_. None, \<lambda>_. None, w) \<and>
     machines_online w \<noteq> {}"
proof -
  obtain cs w sess where d: "(handler_step sample_externals sample_pg None)\<^sup>*\<^sup>*
       (\<lambda>_. Awaiting, {}, \<lambda>_. None, \<lambda>_. None, empty_world []) (cs, {}, \<lambda>_. None, \<lambda>_. None, w)"
    "conn_session (cs 0) = Some sess" "pg_uuid_in sample_pg (sess_machine_id sess) = Some 0"
    "\<exists>row. tb_machines (w_db w) 0 = Some row \<and>
        m_last_connected_at row = Some (pg_time_in sample_pg (sess_connected_at sess))"
    using demo_handlers by blast
  let ?x = "(cs, {}, \<lambda>_. None, \<lambda>_. None, w) :: server_sessions"
  obtain l where l: "lifecycle_reachable l" "\<not> lc_stop_called l"
    "lc_main l = Returned_Main (Some (wrap_error ''shut down HTTP server: '' e))"
    using failed_shutdown_leaves_grpc by blast
  then have "\<not> lc_stop_done l" using lifecycle_reachable_ok [OF l(1)] by (auto simp: lifecycle_ok_def)
  from application_runs_alone [OF l(1) this handlers_run_alone [OF d(1) first_start]]
  have reach: "system_reachable sample_externals sample_pg None (l, ?x)" .
  have "streams_reachable sample_externals sample_pg None ?x"
    using system_parts [OF reach] by simp
  from presence_accurate [OF sample_pg_lawful this, of 0] d(2-4)
  have "0 \<in> machines_online w" by (auto simp: machines_online_def)
  with reach l(3) started_again [of sample_externals sample_pg None l ?x] show ?thesis
    unfolding restarted_simps by blast
qed

section \<open>Witnesses\<close>

text \<open>An agent's stream is open when the server is asked to stop; the handler returns, and \<open>serve\<close> does.\<close>

definition stopping :: lifecycle where
  "stopping = initial_lifecycle\<lparr>lc_signal := True, lc_main := Stopping_Grpc None, lc_stop_called := True\<rparr>"

lemma stopping_reachable: "lifecycle_reachable stopping"
proof -
  let ?s = "initial_lifecycle\<lparr>lc_signal := True\<rparr>"
  have "lifecycle_step initial_lifecycle ?s"
    by (rule lifecycle_step.signal) (simp add: initial_lifecycle_def)
  moreover have "lifecycle_step ?s (?s\<lparr>lc_main := Shutting_Http None\<rparr>)"
    by (rule lifecycle_step.select_signal) (simp_all add: initial_lifecycle_def)
  moreover have "lifecycle_step (?s\<lparr>lc_main := Shutting_Http None\<rparr>) stopping"
    using lifecycle_step.shutdown_ok [of "?s\<lparr>lc_main := Shutting_Http None\<rparr>" None]
    by (simp add: stopping_def http_shutdown_returned_def initial_lifecycle_def)
  ultimately show ?thesis by (meson rtranclp.rtrancl_into_rtrancl rtranclp.rtrancl_refl)
qed

theorem clean_exit_offline_witness:
  "\<exists>l cs D ts ls w r. system_reachable sample_externals sample_pg None (l, cs, D, ts, ls, w) \<and>
     lc_main l = Returned_Main None \<and> cs 0 = Done r \<and> machines_online w \<subseteq> D"
proof -
  obtain cs w where d: "(handler_step sample_externals sample_pg None)\<^sup>*\<^sup>*
       (\<lambda>_. Awaiting, {}, \<lambda>_. None, \<lambda>_. None, empty_world []) (cs, {}, \<lambda>_. None, \<lambda>_. None, w)"
    "\<forall>n. n \<noteq> 0 \<longrightarrow> cs n = Awaiting"
    using demo_handlers by blast
  let ?x = "(cs, {}, \<lambda>_. None, \<lambda>_. None, w) :: server_sessions"
  have run: "only_running {0} ?x" using d(2) by (simp add: only_running_def)
  have "Concurrent_Server.server_ok sample_pg ?x"
    by (rule streams_reachable_ok [OF handlers_reachable [OF d(1) no_stream] sample_pg_lawful])
  from drain_to_rest [OF this run, of sample_externals None] obtain y where
    y: "(drain_step sample_externals sample_pg None {0})\<^sup>*\<^sup>* ?x y" "only_running {0} y" "all_returned {0} y"
    by auto
  have "(handler_step sample_externals sample_pg None)\<^sup>*\<^sup>* ?x y"
    using y(1) by (rule mono_rtranclp [rule_format, rotated]) (rule drain_handler)
  with d(1) have "(handler_step sample_externals sample_pg None)\<^sup>*\<^sup>*
       (\<lambda>_. Awaiting, {}, \<lambda>_. None, \<lambda>_. None, empty_world []) y"
    by (rule rtranclp_trans)
  from handlers_run_alone [OF this first_start]
  have reach: "system_reachable sample_externals sample_pg None (stopping, y)"
    using application_runs_alone [OF stopping_reachable] by (simp add: stopping_def initial_lifecycle_def)
  obtain l where l: "(system_step sample_externals sample_pg None)\<^sup>*\<^sup>* (stopping, y) (l, y)"
    "lc_main l = Returned_Main None"
    using graceful_stop_ends [OF reach _ _ at_rest [OF y(2,3)], of None]
    by (auto simp: stopping_def initial_lifecycle_def serve_result_def)
  obtain cs' D' ts' ls' w' where y': "y = (cs', D', ts', ls', w')" by (cases y)
  have "system_reachable sample_externals sample_pg None (l, y)"
    by (rule system_run_reachable [OF l(1) reach])
  then have reach': "system_reachable sample_externals sample_pg None (l, cs', D', ts', ls', w')"
    by (simp only: y')
  from y(3) obtain r where "cs' 0 = Done r" by (auto simp: all_returned_def y')
  with reach' l(2) clean_exit_offline [OF sample_pg_lawful reach'] show ?thesis by blast
qed

end
