(* ===== verification/Agent_Service.thy ===== *)
theory Agent_Service
  imports Agent_Grpc
begin

text \<open>
  The generated service code of \<^verbatim>\<open>server/internal/gen/agent/v1/agent_grpc.pb.go\<close>: the server
  interface with its unimplemented default, the handlers the gRPC runtime calls, the service
  descriptor it finds them in, and the client stubs. The runtime between a stub and a handler
  (\<^verbatim>\<open>grpc.ClientConnInterface\<close>, \<^verbatim>\<open>grpc.ServiceRegistrar\<close>) is a parameter, with the documented
  delivery of a call by its full method name as a hypothesis, \<open>delivers\<close>.
\<close>

section \<open>The server side\<close>

text \<open>A server stream: what its \<open>Recv\<close> calls give and what \<open>SendAndClose\<close> answers.\<close>

record server_stream =
  stream_events :: "recv_event list"
  stream_reply :: "go_error option"

record ('e, 's) agent_service_server =
  svc_enroll :: "ctx \<Rightarrow> enroll_request option \<Rightarrow> 'e \<Rightarrow> (go_error + enroll_response) \<times> 'e"
  svc_stream_updates :: "server_stream \<Rightarrow> 's \<Rightarrow> handler_result \<times> 's"

definition unimplemented_server :: "('e, 's) agent_service_server" where
  "unimplemented_server =
     \<lparr>svc_enroll = (\<lambda>c request s. (Inl (Status Unimplemented ''method Enroll not implemented''), s)),
      svc_stream_updates = (\<lambda>stream s.
        (Returned (Some (Status Unimplemented ''method StreamUpdates not implemented'')), s))\<rparr>"

text \<open>The \<open>Server\<close> of package \<open>agentgrpc\<close> embeds the default and has methods of its own for both.\<close>

definition agent_service :: "externals \<Rightarrow> ('e, 's) grpc_server \<Rightarrow> ('e, 's) agent_service_server" where
  "agent_service ext srv =
     unimplemented_server
       \<lparr>svc_enroll := grpc_enroll (srv_enroller srv),
        svc_stream_updates := (\<lambda>stream. stream_updates ext (srv_tracker srv) (srv_recorder srv)
          (stream_reply stream) (stream_events stream))\<rparr>"

text \<open>An interceptor gets the request, the full method and the rest of the call; \<open>dec\<close> is the result of
  decoding into a new request.\<close>

type_synonym 'e enroll_call = "ctx \<Rightarrow> enroll_request option \<Rightarrow> 'e \<Rightarrow> (go_error + enroll_response) \<times> 'e"
type_synonym 'e interceptor =
  "ctx \<Rightarrow> enroll_request option \<Rightarrow> string \<Rightarrow> 'e enroll_call \<Rightarrow> 'e \<Rightarrow> (go_error + enroll_response) \<times> 'e"

definition enroll_full_method :: string where
  "enroll_full_method = ''/arxveil.agent.v1.AgentService/Enroll''"

definition stream_updates_full_method :: string where
  "stream_updates_full_method = ''/arxveil.agent.v1.AgentService/StreamUpdates''"

definition enroll_handler ::
  "('e, 's) agent_service_server \<Rightarrow> ctx \<Rightarrow> go_error + enroll_request \<Rightarrow> 'e interceptor option
     \<Rightarrow> 'e \<Rightarrow> (go_error + enroll_response) \<times> 'e" where
  "enroll_handler srv c dec interceptor s =
     (case dec of
        Inl e \<Rightarrow> (Inl e, s)
      | Inr request \<Rightarrow>
     (case interceptor of
        None \<Rightarrow> svc_enroll srv c (Some request) s
      | Some intercept \<Rightarrow>
          let handler = (\<lambda>c req s. svc_enroll srv c req s)
          in intercept c (Some request) enroll_full_method handler s))"

definition stream_updates_handler ::
  "('e, 's) agent_service_server \<Rightarrow> server_stream \<Rightarrow> 's \<Rightarrow> handler_result \<times> 's" where
  "stream_updates_handler srv stream s = svc_stream_updates srv stream s"

record ('e, 's) service_desc =
  sd_service_name :: string
  sd_methods :: "(string \<times> (('e, 's) agent_service_server \<Rightarrow> ctx \<Rightarrow> go_error + enroll_request
    \<Rightarrow> 'e interceptor option \<Rightarrow> 'e \<Rightarrow> (go_error + enroll_response) \<times> 'e)) list"
  sd_streams :: "(string \<times> (('e, 's) agent_service_server \<Rightarrow> server_stream \<Rightarrow> 's \<Rightarrow> handler_result \<times> 's)
    \<times> bool) list"  \<comment> \<open>name, handler, \<open>ClientStreams\<close>\<close>
  sd_metadata :: string

definition agent_service_desc :: "('e, 's) service_desc" where
  "agent_service_desc =
     \<lparr>sd_service_name = ''arxveil.agent.v1.AgentService'',
      sd_methods = [(''Enroll'', enroll_handler)],
      sd_streams = [(''StreamUpdates'', stream_updates_handler, True)],
      sd_metadata = ''agent/v1/agent.proto''\<rparr>"

definition register_agent_service_server ::
  "(('e, 's) service_desc \<Rightarrow> ('e, 's) agent_service_server \<Rightarrow> 'r \<Rightarrow> 'r)
     \<Rightarrow> ('e, 's) agent_service_server \<Rightarrow> 'r \<Rightarrow> 'r" where
  "register_agent_service_server register srv registrar = register agent_service_desc srv registrar"

section \<open>The client side\<close>

record ('n, 'c) client_conn =
  cc_invoke :: "ctx \<Rightarrow> string \<Rightarrow> enroll_request option \<Rightarrow> 'n \<Rightarrow> (go_error + enroll_response) \<times> 'n"
  cc_new_stream :: "ctx \<Rightarrow> string \<times> bool \<Rightarrow> string \<Rightarrow> 'n \<Rightarrow> (go_error + 'c) \<times> 'n"

definition client_enroll ::
  "('n, 'c) client_conn \<Rightarrow> ctx \<Rightarrow> enroll_request option \<Rightarrow> 'n \<Rightarrow> (go_error + enroll_response) \<times> 'n" where
  "client_enroll cc c request n =
     (case cc_invoke cc c enroll_full_method request n of
        (Inl e, n) \<Rightarrow> (Inl e, n)
      | (Inr out, n) \<Rightarrow> (Inr out, n))"

definition client_stream_updates :: "('n, 'c) client_conn \<Rightarrow> ctx \<Rightarrow> 'n \<Rightarrow> (go_error + 'c) \<times> 'n" where
  "client_stream_updates cc c n =
     (let (name, _, client_streams) = hd (sd_streams agent_service_desc)
      in case cc_new_stream cc c (name, client_streams) stream_updates_full_method n of
           (Inl e, n) \<Rightarrow> (Inl e, n)
         | (Inr stream, n) \<Rightarrow> (Inr stream, n))"

section \<open>A call from stub to handler\<close>

definition full_method :: "('e, 's) service_desc \<Rightarrow> string \<Rightarrow> string" where
  "full_method desc name = ''/'' @ sd_service_name desc @ ''/'' @ name"

text \<open>The constants of the client name the entries of the descriptor, and no others.\<close>

lemma full_methods:
  "map (\<lambda>(n, h). full_method agent_service_desc n) (sd_methods agent_service_desc) = [enroll_full_method]"
  "map (\<lambda>(n, h, b). full_method agent_service_desc n) (sd_streams agent_service_desc)
     = [stream_updates_full_method]"
  by (simp_all add: full_method_def agent_service_desc_def enroll_full_method_def
      stream_updates_full_method_def)

text \<open>The runtime, as its documentation has it: a call may fail on the way to the server, by the context of
  the client, the connection or the encoding, with an error of the runtime's \<open>own\<close>; else the handler
  of the full method is run, once, with the request as it was sent and a context of the server; then
  the answer comes back, or is lost to such an error. \<open>intercept\<close> is the server's interceptor, if it
  has one.\<close>

definition delivers ::
  "go_error set \<Rightarrow> ('e, 's) service_desc \<Rightarrow> ('e, 's) agent_service_server \<Rightarrow> 'e interceptor option
     \<Rightarrow> ('e, 'c) client_conn \<Rightarrow> bool" where
  "delivers own desc srv intercept cc \<longleftrightarrow>
     (\<forall>(name, handler) \<in> set (sd_methods desc). \<forall>c request s.
        (\<exists>e \<in> own. cc_invoke cc c (full_method desc name) (Some request) s = (Inl e, s)) \<or>
        (\<exists>c' answer s'. handler srv c' (Inr request) intercept s = (answer, s') \<and>
           (cc_invoke cc c (full_method desc name) (Some request) s = (answer, s') \<or>
            (\<exists>e \<in> own. cc_invoke cc c (full_method desc name) (Some request) s = (Inl e, s')))))"

lemma delivers_enroll:
  fixes srv :: "('e, 's) agent_service_server"
  assumes "delivers own agent_service_desc srv intercept cc"
  shows "(\<exists>e \<in> own. cc_invoke cc c enroll_full_method (Some request) s = (Inl e, s)) \<or>
    (\<exists>c' answer s'. enroll_handler srv c' (Inr request) intercept s = (answer, s') \<and>
       (cc_invoke cc c enroll_full_method (Some request) s = (answer, s') \<or>
        (\<exists>e \<in> own. cc_invoke cc c enroll_full_method (Some request) s = (Inl e, s'))))"
proof -
  let ?desc = "agent_service_desc :: ('e, 's) service_desc"
  have name: "full_method ?desc ''Enroll'' = enroll_full_method"
    by (simp add: full_method_def agent_service_desc_def enroll_full_method_def)
  have "(''Enroll'', enroll_handler) \<in> set (sd_methods ?desc)"
    by (simp add: agent_service_desc_def)
  from bspec [OF assms [unfolded delivers_def] this] show ?thesis
    unfolding prod.case name by (elim allE) assumption
qed

lemma client_enroll_invoke: "client_enroll cc c request s = cc_invoke cc c enroll_full_method request s"
  by (simp add: client_enroll_def split: prod.split sum.split)

lemma enroll_handler_answers:
  assumes "enroll_handler (agent_service ext srv) c (Inr request) None s = (answer, s')"
  shows "\<exists>out. enroller_enroll (srv_enroller srv) c (request_input (Some request)) s = (out, s') \<and>
    answer = (case out of
        Inr a \<Rightarrow> Inr \<lparr>resp_machine_id = ea_machine_id a, resp_agent_id = ea_agent_id a,
                      resp_agent_secret = ea_secret a\<rparr>
      | Inl e \<Rightarrow> Inl (if errors_is e ErrInvalidInput then Status InvalidArgument ''invalid enrollment request''
                      else Status Internal ''enrollment failed''))"
  using assms
  by (auto simp: enroll_handler_def agent_service_def grpc_enroll_def split: prod.splits sum.splits if_splits)

section \<open>Properties\<close>

text \<open>C26: an enrollment through the generated code, over a runtime that may fail: a response is the agent the
  service has enrolled for the fields of the request, and the service was called once. After an error
  the service was called at most once: either the error is the runtime's own, and the client cannot tell
  whether it was enrolled, or it is the fixed status for the error of the service, of which nothing
  else is seen. The status for a missing request and \<open>Unimplemented\<close> are never answered.\<close>

theorem enroll_rpc:
  assumes "delivers own agent_service_desc (agent_service ext srv) None cc"
  shows "case client_enroll cc c (Some request) s of
     (Inr resp, s') \<Rightarrow> \<exists>c' a.
       enroller_enroll (srv_enroller srv) c' (request_input (Some request)) s = (Inr a, s') \<and>
       resp = \<lparr>resp_machine_id = ea_machine_id a, resp_agent_id = ea_agent_id a,
               resp_agent_secret = ea_secret a\<rparr>
   | (Inl err, s') \<Rightarrow>
       err \<in> own \<and> (s' = s \<or> (\<exists>c'. s' = snd (enroller_enroll (srv_enroller srv) c' (request_input (Some request)) s))) \<or>
       (\<exists>c' e. enroller_enroll (srv_enroller srv) c' (request_input (Some request)) s = (Inl e, s') \<and>
          err = (if errors_is e ErrInvalidInput then Status InvalidArgument ''invalid enrollment request''
                 else Status Internal ''enrollment failed''))"
  using delivers_enroll [OF assms, of c request s]
proof (elim disjE bexE exE conjE)
  fix c' answer s' assume h: "enroll_handler (agent_service ext srv) c' (Inr request) None s = (answer, s')"
    and "cc_invoke cc c enroll_full_method (Some request) s = (answer, s')"
  then have client: "client_enroll cc c (Some request) s = (answer, s')" by (simp add: client_enroll_invoke)
  obtain out where "enroller_enroll (srv_enroller srv) c' (request_input (Some request)) s = (out, s')"
    "answer = (case out of
        Inr a \<Rightarrow> Inr \<lparr>resp_machine_id = ea_machine_id a, resp_agent_id = ea_agent_id a,
                      resp_agent_secret = ea_secret a\<rparr>
      | Inl e \<Rightarrow> Inl (if errors_is e ErrInvalidInput then Status InvalidArgument ''invalid enrollment request''
                      else Status Internal ''enrollment failed''))"
    using enroll_handler_answers [OF h] by blast
  then show ?thesis
  proof (cases out)
    case (Inl e)
    with \<open>enroller_enroll _ c' _ s = _\<close> \<open>answer = _\<close> show ?thesis
      unfolding client prod.case by simp blast
  next
    case (Inr a)
    with \<open>enroller_enroll _ c' _ s = _\<close> \<open>answer = _\<close> show ?thesis
      unfolding client prod.case by simp blast
  qed
next
  fix c' answer s' e assume h: "enroll_handler (agent_service ext srv) c' (Inr request) None s = (answer, s')"
    and e: "e \<in> own" "cc_invoke cc c enroll_full_method (Some request) s = (Inl e, s')"
  from enroll_handler_answers [OF h]
  have "s' = snd (enroller_enroll (srv_enroller srv) c' (request_input (Some request)) s)" by auto
  with e show ?thesis unfolding client_enroll_invoke by auto
qed (simp add: client_enroll_invoke)

section \<open>Witnesses\<close>

definition counting_enroller :: "nat enroller" where
  "counting_enroller = \<lparr>enroller_enroll = (\<lambda>c input n.
     (if in_hostname input = '''' then Inl (Sentinel ErrInvalidInput)
      else Inr \<lparr>ea_machine_id = ''m'', ea_agent_id = ''a'', ea_secret = in_hostname input\<rparr>, Suc n))\<rparr>"

definition counting_server :: "(nat, nat) grpc_server" where
  "counting_server = new_server counting_enroller undefined undefined"

text \<open>A runtime that gives up on a cancelled context and finds the method in the descriptor.\<close>

definition gave_up :: go_error where
  "gave_up = External ''context canceled''"

definition local_conn :: "('e, 's) agent_service_server \<Rightarrow> ('e, unit) client_conn" where
  "local_conn srv =
     \<lparr>cc_invoke = (\<lambda>c name request s.
        (if ctx_done c then (Inl gave_up, s)
         else case find (\<lambda>(n, h). full_method (agent_service_desc :: ('e, 's) service_desc) n = name)
                (sd_methods (agent_service_desc :: ('e, 's) service_desc)) of
           None \<Rightarrow> (Inl (Status Unimplemented ''unknown method''), s)
         | Some (_, handler) \<Rightarrow>
             handler srv background
               (case request of None \<Rightarrow> Inl (External ''nil message'') | Some r \<Rightarrow> Inr r) None s)),
      cc_new_stream = (\<lambda>c desc name s. (Inr (), s))\<rparr>"

lemma local_conn_delivers:
  fixes srv :: "('e, 's) agent_service_server"
  shows "delivers {gave_up} agent_service_desc srv None (local_conn srv)"
proof -
  let ?desc = "agent_service_desc :: ('e, 's) service_desc"
  have call: "cc_invoke (local_conn srv) c (full_method ?desc ''Enroll'') (Some request) s =
      (if ctx_done c then (Inl gave_up, s) else enroll_handler srv background (Inr request) None s)" for c request s
    by (simp add: local_conn_def agent_service_desc_def full_method_def)
  have methods: "sd_methods ?desc = [(''Enroll'', enroll_handler)]"
    by (simp add: agent_service_desc_def)
  show ?thesis
    unfolding delivers_def methods by (simp add: call) (metis prod.collapse)
qed

text \<open>A call that is answered, and one that is given up on before it is sent.\<close>

theorem enroll_rpc_witness:
  "\<exists>request c. let call = client_enroll (local_conn (agent_service undefined counting_server)) in
     fst (call background (Some request) 0)
       = Inr \<lparr>resp_machine_id = ''m'', resp_agent_id = ''a'', resp_agent_secret = ''host''\<rparr> \<and>
     call c (Some request) 0 = (Inl gave_up, 0)"
proof -
  define request where "request = \<lparr>req_hostname = ''host'', req_operating_system = '''', req_os_version = '''',
     req_architecture = '''', req_agent_version = '''', req_capabilities = []\<rparr>"
  let ?call = "client_enroll (local_conn (agent_service undefined counting_server))"
  have s: "enroller_enroll (srv_enroller counting_server) c (request_input (Some request)) n
      = (Inr \<lparr>ea_machine_id = ''m'', ea_agent_id = ''a'', ea_secret = ''host''\<rparr>, Suc n)" for c n
    by (simp add: counting_server_def counting_enroller_def new_server_def request_input_def
        request_def getter_defs)
  have up: "fst (?call background (Some request) 0) \<noteq> Inl gave_up"
    by (simp add: client_enroll_def local_conn_def agent_service_desc_def full_method_def
        enroll_full_method_def enroll_handler_def agent_service_def grpc_enroll_def s)
  have "fst (?call background (Some request) 0)
      = Inr \<lparr>resp_machine_id = ''m'', resp_agent_id = ''a'', resp_agent_secret = ''host''\<rparr>"
    using enroll_rpc [OF local_conn_delivers, where ext = undefined and srv = counting_server and c = background
      and request = request and s = 0] up s
    by (auto split: prod.splits sum.splits)
  moreover have "?call \<lparr>ctx_done = True, ctx_timeout = None\<rparr> (Some request) 0 = (Inl gave_up, 0)"
    by (simp add: client_enroll_def local_conn_def)
  ultimately show ?thesis unfolding Let_def by blast
qed

end
