(* ===== verification/Go_Path.thy ===== *)
theory Go_Path
  imports Prelude
begin

text \<open>
  The part of Go's \<^verbatim>\<open>path/filepath\<close> the command-line tool uses, for Unix paths: \<open>Clean\<close>, \<open>Join\<close>,
  \<open>Dir\<close> and \<open>Abs\<close>. A cleaned path is a list of names; the lemmas say what the functions do to
  cleaned absolute paths.
\<close>

definition slash :: char where "slash = CHR ''/''"

fun split_path :: "string \<Rightarrow> string list" where
  "split_path [] = [[]]"
| "split_path (c # cs) =
     (if c = slash then [] # split_path cs
      else case split_path cs of [] \<Rightarrow> [[c]] | w # ws \<Rightarrow> (c # w) # ws)"

fun join_names :: "string list \<Rightarrow> string" where
  "join_names [] = []"
| "join_names [w] = w"
| "join_names (w # ws) = w @ slash # join_names ws"

text \<open>\<open>Clean\<close> drops empty names and \<open>.\<close>, and resolves \<open>..\<close> against the name before it; at the root
  \<open>..\<close> is dropped, at the start of a relative path it stays.\<close>

definition clean_step :: "bool \<Rightarrow> string list \<Rightarrow> string \<Rightarrow> string list" where
  "clean_step rooted acc w =
     (if w = '''' \<or> w = ''.'' then acc
      else if w = ''..''
      then (if acc \<noteq> [] \<and> last acc \<noteq> ''..'' then butlast acc
            else if rooted then acc else acc @ [w])
      else acc @ [w])"

definition rooted_path :: "string list \<Rightarrow> string" where
  "rooted_path ws = slash # join_names ws"

definition is_abs :: "string \<Rightarrow> bool" where
  "is_abs p = (case p of [] \<Rightarrow> False | c # _ \<Rightarrow> c = slash)"

definition clean :: "string \<Rightarrow> string" where
  "clean p =
     (let ws = foldl (clean_step (is_abs p)) [] (split_path p)
      in if is_abs p then rooted_path ws
         else if ws = [] then ''.'' else join_names ws)"

fun join_path :: "string list \<Rightarrow> string" where
  "join_path [] = ''''"
| "join_path (w # ws) = (if w = '''' then join_path ws else clean (join_names (w # ws)))"

text \<open>The path up to and including its last slash.\<close>

definition dir_prefix :: "string \<Rightarrow> string" where
  "dir_prefix p = rev (dropWhile (\<lambda>c. c \<noteq> slash) (rev p))"

definition dir :: "string \<Rightarrow> string" where
  "dir p = clean (dir_prefix p)"

text \<open>\<open>Abs\<close>; the working directory is what \<open>os.Getwd\<close> answers.\<close>

definition abs_path :: "go_error + string \<Rightarrow> string \<Rightarrow> go_error + string" where
  "abs_path getwd p =
     (if is_abs p then Inr (clean p)
      else case getwd of Inl e \<Rightarrow> Inl e | Inr wd \<Rightarrow> Inr (join_path [wd, p]))"

section \<open>Names\<close>

definition plain_name :: "string \<Rightarrow> bool" where
  "plain_name w \<longleftrightarrow> w \<noteq> '''' \<and> w \<noteq> ''.'' \<and> w \<noteq> ''..'' \<and> slash \<notin> set w"

lemma split_no_slash: "slash \<notin> set w \<Longrightarrow> split_path w = [w]"
  by (induction w) auto

lemma split_append: "slash \<notin> set w \<Longrightarrow> split_path (w @ slash # p) = w # split_path p"
  by (induction w) auto

lemma split_join:
  "ws \<noteq> [] \<Longrightarrow> \<forall>w \<in> set ws. slash \<notin> set w \<Longrightarrow> split_path (join_names ws) = ws"
  by (induction ws rule: join_names.induct) (auto simp: split_no_slash split_append)

lemma split_names: "\<forall>w \<in> set (split_path p). slash \<notin> set w"
  by (induction p) (auto split: list.split)

lemma split_not_empty [simp]: "split_path p \<noteq> []"
  by (cases p) (auto split: list.split)

lemma is_abs_rooted [simp]: "is_abs (rooted_path ws)"
  by (simp add: is_abs_def rooted_path_def)

lemma split_rooted:
  assumes "\<forall>w \<in> set ws. plain_name w"
  shows "split_path (rooted_path ws) = '''' # (if ws = [] then [''''] else ws)"
  using assms by (auto simp: rooted_path_def plain_name_def split_join)

lemma clean_step_plain: "plain_name w \<Longrightarrow> clean_step r acc w = acc @ [w]"
  by (simp add: clean_step_def plain_name_def)

lemma clean_steps_plain: "\<forall>w \<in> set ws. plain_name w \<Longrightarrow> foldl (clean_step r) acc ws = acc @ ws"
  by (induction ws arbitrary: acc) (simp_all add: clean_step_plain)

lemma clean_rooted [simp]:
  assumes "\<forall>w \<in> set ws. plain_name w"
  shows "clean (rooted_path ws) = rooted_path ws"
  using assms by (simp add: clean_def split_rooted clean_steps_plain clean_step_def Let_def)

lemma clean_steps_rooted:
  "\<forall>w \<in> set ps. slash \<notin> set w \<Longrightarrow> \<forall>w \<in> set acc. plain_name w \<Longrightarrow>
     \<forall>w \<in> set (foldl (clean_step True) acc ps). plain_name w"
proof (induction ps arbitrary: acc)
  case (Cons p ps)
  have "\<forall>w \<in> set (clean_step True acc p). plain_name w"
    using Cons.prems by (auto simp: clean_step_def plain_name_def dest: in_set_butlastD)
  with Cons show ?case by simp
qed simp

text \<open>Cleaning an absolute path gives plain names.\<close>

lemma clean_abs:
  assumes "is_abs p"
  obtains ws where "clean p = rooted_path ws" "\<forall>w \<in> set ws. plain_name w"
  using clean_steps_rooted [OF split_names, of "[]" p] assms that by (auto simp: clean_def Let_def)

section \<open>Join and Dir on cleaned absolute paths\<close>

lemma join_names_append:
  "ws \<noteq> [] \<Longrightarrow> vs \<noteq> [] \<Longrightarrow> join_names (ws @ vs) = join_names ws @ slash # join_names vs"
proof (induction ws rule: join_names.induct)
  case (2 w)
  then show ?case by (cases vs) auto
qed simp_all

lemma rooted_append:
  "ws \<noteq> [] \<Longrightarrow> rooted_path (ws @ [w]) = rooted_path ws @ slash # w"
  by (simp add: rooted_path_def join_names_append)

lemma clean_rooted_names:
  assumes "\<forall>w \<in> set ws. plain_name w" "vs \<noteq> []" "\<forall>v \<in> set vs. plain_name v"
  shows "clean (rooted_path ws @ slash # join_names vs) = rooted_path (ws @ vs)"
proof (cases "ws = []")
  case True
  have "split_path (rooted_path [] @ slash # join_names vs) = '''' # '''' # vs"
    using assms(2,3) by (simp add: rooted_path_def split_join plain_name_def)
  with True assms show ?thesis
    by (simp add: clean_def Let_def clean_step_def clean_steps_plain is_abs_def rooted_path_def)
next
  case False
  have "rooted_path ws @ slash # join_names vs = rooted_path (ws @ vs)"
    using False assms(2) by (simp add: rooted_path_def join_names_append)
  with assms show ?thesis by (simp add: ball_Un)
qed

lemma join_path_rooted:
  assumes "\<forall>w \<in> set ws. plain_name w" "vs \<noteq> []" "\<forall>v \<in> set vs. plain_name v"
  shows "join_path (rooted_path ws # vs) = rooted_path (ws @ vs)"
proof -
  obtain v vs' where "vs = v # vs'" using assms(2) by (cases vs) auto
  then have "join_names (rooted_path ws # vs) = rooted_path ws @ slash # join_names vs" by simp
  with clean_rooted_names [OF assms] show ?thesis by (simp add: rooted_path_def)
qed

lemma dir_rooted_snoc:
  assumes "\<forall>w \<in> set ws. plain_name w" "plain_name w"
  shows "dir (rooted_path (ws @ [w])) = rooted_path ws"
proof -
  have drop: "dropWhile (\<lambda>c. c \<noteq> slash) (rev w @ slash # xs) = slash # xs" for xs
  proof -
    have "\<And>c. c \<in> set (rev w) \<Longrightarrow> c \<noteq> slash" using assms(2) by (auto simp: plain_name_def)
    then show ?thesis by (subst dropWhile_append2) auto
  qed
  show ?thesis
  proof (cases "ws = []")
    case True
    have "dir_prefix (rooted_path [w]) = [slash]"
      using drop [of "[]"] by (simp add: dir_prefix_def rooted_path_def)
    moreover have "clean [slash] = rooted_path []"
      by (simp add: clean_def is_abs_def clean_step_def Let_def)
    ultimately show ?thesis using True by (simp add: dir_def)
  next
    case False
    then have "dir_prefix (rooted_path (ws @ [w])) = rooted_path ws @ [slash]"
      using drop by (simp add: dir_prefix_def rooted_append)
    moreover have "clean (rooted_path ws @ [slash]) = rooted_path ws"
    proof -
      have "split_path (rooted_path ws @ [slash]) = '''' # ws @ ['''']"
      proof -
        have "join_names ws @ [slash] = join_names (ws @ [''''])"
          using False by (simp add: join_names_append)
        then show ?thesis
          using assms(1) split_join [of "ws @ ['''']"] by (auto simp: rooted_path_def plain_name_def)
      qed
      with assms(1) show ?thesis
        by (simp add: clean_def Let_def clean_step_def clean_steps_plain is_abs_def)
           (simp add: rooted_path_def)
    qed
    ultimately show ?thesis by (simp add: dir_def)
  qed
qed

lemma dir_root: "dir (rooted_path []) = rooted_path []"
  by (simp add: dir_def dir_prefix_def rooted_path_def clean_def is_abs_def clean_step_def Let_def)

end
