(* ===== verification/Go_Flag.thy ===== *)
theory Go_Flag
  imports Prelude
begin

text \<open>
  Go's \<^verbatim>\<open>flag\<close> package as the command-line tool uses it: a \<open>FlagSet\<close> that has only boolean flags
  and the policy \<open>ContinueOnError\<close>. \<open>strconv.ParseBool\<close> reads a value given with \<open>=\<close>. Parsing
  stops at the first argument that is not a flag, or after \<open>--\<close>.
\<close>

definition parse_bool :: "string \<Rightarrow> bool option" where
  "parse_bool s =
     (if s \<in> {''1'', ''t'', ''T'', ''true'', ''TRUE'', ''True''} then Some True
      else if s \<in> {''0'', ''f'', ''F'', ''false'', ''FALSE'', ''False''} then Some False
      else None)"

text \<open>The name of a flag and the value after the first \<open>=\<close>; the \<open>=\<close> cannot come first.\<close>

definition split_flag :: "string \<Rightarrow> string \<times> string option" where
  "split_flag name =
     (let key = takeWhile (\<lambda>c. c \<noteq> CHR ''='') name
      in (key, if length key < length name then Some (drop (Suc (length key)) name) else None))"

datatype flag_arg =
    Not_A_Flag
  | End_Of_Flags
  | Bad_Syntax
  | Flag string "string option"

definition flag_arg_of :: "string \<Rightarrow> flag_arg" where
  "flag_arg_of s =
     (case s of
        c # d # rest \<Rightarrow>
          if c \<noteq> CHR ''-'' then Not_A_Flag
          else if d = CHR ''-'' \<and> rest = '''' then End_Of_Flags
          else let name = (if d = CHR ''-'' then rest else d # rest)
               in if name = '''' \<or> hd name = CHR ''-'' \<or> hd name = CHR ''='' then Bad_Syntax
                  else case split_flag name of (key, v) \<Rightarrow> Flag key v
      | _ \<Rightarrow> Not_A_Flag)"

text \<open>\<open>defined\<close> are the names of the flags, \<open>vals\<close> their values so far.\<close>

fun parse_flags ::
  "string list \<Rightarrow> string list \<Rightarrow> (string \<Rightarrow> bool) \<Rightarrow> go_error + (string \<Rightarrow> bool) \<times> string list" where
  "parse_flags defined [] vals = Inr (vals, [])"
| "parse_flags defined (s # args) vals =
     (case flag_arg_of s of
        Not_A_Flag \<Rightarrow> Inr (vals, s # args)
      | End_Of_Flags \<Rightarrow> Inr (vals, args)
      | Bad_Syntax \<Rightarrow> Inl (New (''bad flag syntax: '' @ s))
      | Flag name v \<Rightarrow>
          if name \<notin> set defined
          then if name = ''help'' \<or> name = ''h'' then Inl (Sentinel ErrHelp)
               else Inl (New (''flag provided but not defined: -'' @ name))
          else case v of
                 None \<Rightarrow> parse_flags defined args (vals(name := True))
               | Some txt \<Rightarrow>
                   (case parse_bool txt of
                      None \<Rightarrow> Inl (Quoted ''invalid boolean value '' txt
                                     ('' for -'' @ name @ '': parse error''))
                    | Some b \<Rightarrow> parse_flags defined args (vals(name := b))))"

definition flags_off :: "string \<Rightarrow> bool" where
  "flags_off = (\<lambda>_. False)"

section \<open>What parsing does\<close>

text \<open>The arguments that turn a flag on.\<close>

definition turns_on :: "string \<Rightarrow> string \<Rightarrow> bool" where
  "turns_on name s \<longleftrightarrow>
     (\<exists>v. flag_arg_of s = Flag name v \<and> (v = None \<or> (\<exists>txt. v = Some txt \<and> parse_bool txt = Some True)))"

lemma parse_flags_on:
  "parse_flags defined args vals = Inr (vals', rest) \<Longrightarrow> vals' name \<Longrightarrow> \<not> vals name \<Longrightarrow>
     \<exists>s \<in> set args. turns_on name s"
proof (induction defined args vals rule: parse_flags.induct)
  case (2 defined s args vals)
  show ?case
  proof (cases "flag_arg_of s")
    case (Flag key v)
    have defd: "key \<in> set defined"
      using 2(3) Flag by (auto split: if_splits)
    obtain b where b: "parse_flags defined args (vals(key := b)) = Inr (vals', rest)"
      "v = None \<and> b \<or> (\<exists>txt. v = Some txt \<and> parse_bool txt = Some b)"
      using 2(3) Flag defd by (auto split: option.splits)
    show ?thesis
    proof (cases "(vals(key := b)) name")
      case True
      with 2(5) Flag b(2) have "turns_on name s"
        by (auto simp: turns_on_def split: if_splits)
      then show ?thesis by simp
    next
      case False
      from b have "v = None \<or> (\<exists>txt. v = Some txt)" by auto
      then have "\<exists>s \<in> set args. turns_on name s"
      proof
        assume v: "v = None"
        with b(2) have on: "b = True" by simp
        show ?thesis
          using 2(1) [OF Flag _ v b(1) [unfolded on] 2(4) False [unfolded on]] defd by blast
      next
        assume "\<exists>txt. v = Some txt"
        then obtain x where v: "v = Some x" by blast
        with b(2) have "parse_bool x = Some b" by auto
        with 2(2) [OF Flag _ v _ b(1) 2(4) False] defd show ?thesis by blast
      qed
      then show ?thesis by auto
    qed
  qed (use 2 in auto)
qed simp

text \<open>Flags written out as \<open>--name\<close> are read back.\<close>

definition flag_name_ok :: "string \<Rightarrow> bool" where
  "flag_name_ok n \<longleftrightarrow> n \<noteq> '''' \<and> hd n \<noteq> CHR ''-'' \<and> CHR ''='' \<notin> set n"

definition option_of :: "string \<Rightarrow> string" where
  "option_of n = ''--'' @ n"

lemma flag_arg_of_option [simp]:
  assumes "flag_name_ok n"
  shows "flag_arg_of (option_of n) = Flag n None"
proof -
  have all: "takeWhile (\<lambda>c. c \<noteq> CHR ''='') n = n"
    using assms by (auto simp: flag_name_ok_def takeWhile_eq_all_conv)
  have key: "split_flag n = (n, None)" unfolding split_flag_def Let_def all by simp
  obtain c cs where n: "n = c # cs" "c \<noteq> CHR ''-''" "c \<noteq> CHR ''=''"
    using assms by (cases n) (auto simp: flag_name_ok_def)
  then show ?thesis
    using key by (simp add: option_of_def flag_arg_of_def)
qed

lemma parse_flags_options:
  "\<forall>n \<in> set ns. flag_name_ok n \<and> n \<in> set defined \<Longrightarrow>
     parse_flags defined (map option_of ns @ args) vals
       = parse_flags defined args (\<lambda>n. n \<in> set ns \<or> vals n)"
proof (induction ns arbitrary: vals)
  case (Cons n ns)
  have "(\<lambda>k. k \<in> set ns \<or> (vals(n := True)) k) = (\<lambda>k. k \<in> set (n # ns) \<or> vals k)"
    by auto
  with Cons.IH [of "vals(n := True)"] Cons.prems show ?case by (simp del: fun_upd_apply)
qed simp

lemma parse_flags_stop:
  "args = [] \<or> flag_arg_of (hd args) = Not_A_Flag \<Longrightarrow> parse_flags defined args vals = Inr (vals, args)"
  by (cases args) auto

end
