(* ===== verification/Cli.thy ===== *)
theory Cli
  imports Go_Path Go_Flag "HOL-Library.Sublist"
begin

text \<open>
  \<^verbatim>\<open>tools/arxveil/main.go\<close>: the development command line. Parsing the arguments into one
  \<^verbatim>\<open>docker\<close> invocation, the search for the repository root, and \<open>run\<close> with its exit code and
  what it prints. The file system, \<open>os.Getwd\<close> and the runner of commands are parameters. The
  search is a loop in the option monad, so that a search that never ends is \<open>None\<close>; it is shown
  to end.
\<close>

section \<open>Text\<close>

definition newline :: string where
  "newline = [char_of (10::nat)]"

fun join_words :: "string list \<Rightarrow> string" where
  "join_words [] = ''''"
| "join_words [w] = w"
| "join_words (w # ws) = w @ '' '' @ join_words ws"

definition usage :: string where
  "usage = concat (map (\<lambda>l. l @ newline)
     [''Arxveil development command-line interface.'',
      '''',
      ''Usage:'',
      ''  arxveil backend start [--with-agents] [--detach]'',
      ''  arxveil backend stop [--with-agents]'',
      ''  arxveil backend status [--with-agents]'',
      ''  arxveil backend logs [--with-agents] [service...]'',
      ''  arxveil backend reset [--with-agents] --yes'',
      ''  arxveil generate go'',
      ''  arxveil help'',
      '''',
      ''Commands:'',
      ''  backend start   Build and start the local backend stack in the foreground.'',
      ''  backend stop    Stop the local backend stack while preserving its data.'',
      ''  backend status  Show the stack's Compose services.'',
      ''  backend logs    Follow Compose logs, optionally for named services.'',
      ''  backend reset   Stop the stack and permanently remove its Docker volumes.'',
      ''  generate go     Generate committed Go bindings from the protobuf contract.''])"

text \<open>What is printed: text, or the text of an error value.\<close>

datatype printed = Text string | Error_Text go_error

section \<open>The repository root\<close>

datatype stat_result = Stat_Failed | Is_Directory | Is_File

definition is_file :: "(string \<Rightarrow> stat_result) \<Rightarrow> string \<Rightarrow> bool" where
  "is_file stat path \<longleftrightarrow> stat path \<noteq> Stat_Failed \<and> stat path \<noteq> Is_Directory"

partial_function (option) find_root_loop ::
  "(string \<Rightarrow> stat_result) \<Rightarrow> string \<Rightarrow> (go_error + string) option" where
  "find_root_loop stat directory =
     (if is_file stat (join_path [directory, ''infra'', ''compose.yaml''])
         \<and> is_file stat (join_path [directory, ''proto'', ''Dockerfile.go''])
      then Some (Inr directory)
      else if dir directory = directory
      then Some (Inl (New ''could not find an Arxveil repository root''))
      else find_root_loop stat (dir directory))"

declare find_root_loop.simps [code]

definition find_repository_root ::
  "(string \<Rightarrow> stat_result) \<Rightarrow> go_error + string \<Rightarrow> string \<Rightarrow> (go_error + string) option" where
  "find_repository_root stat getwd start =
     (case abs_path getwd start of
        Inl e \<Rightarrow> Some (Inl (wrap_error ''resolve working directory: '' e))
      | Inr directory \<Rightarrow> find_root_loop stat directory)"

section \<open>Commands\<close>

definition compose_command :: "string \<Rightarrow> bool \<Rightarrow> string list" where
  "compose_command root with_agents =
     [''compose'', ''-f'', join_path [root, ''infra'', ''compose.yaml'']]
     @ (if with_agents then [''-f'', join_path [root, ''infra'', ''compose.agents.yaml'']] else [])"

definition parse_with_agents :: "string list \<Rightarrow> string \<Rightarrow> go_error + bool" where
  "parse_with_agents arguments command_name =
     (case parse_flags [''with-agents''] arguments flags_off of
        Inl e \<Rightarrow> Inl e
      | Inr (flags, args) \<Rightarrow>
          if args \<noteq> []
          then Inl (New (''unexpected '' @ command_name @ '' arguments: '' @ join_words args))
          else Inr (flags ''with-agents''))"

definition start_command :: "string list \<Rightarrow> string \<Rightarrow> go_error + string list" where
  "start_command arguments root =
     (case parse_flags [''with-agents'', ''detach''] arguments flags_off of
        Inl e \<Rightarrow> Inl e
      | Inr (flags, args) \<Rightarrow>
          if args \<noteq> []
          then Inl (New (''unexpected backend start arguments: '' @ join_words args))
          else Inr (compose_command root (flags ''with-agents'') @ [''up'', ''--build'']
                    @ (if flags ''detach'' then [''--detach''] else [])))"

definition logs_command :: "string list \<Rightarrow> string \<Rightarrow> go_error + string list" where
  "logs_command arguments root =
     (case parse_flags [''with-agents''] arguments flags_off of
        Inl e \<Rightarrow> Inl e
      | Inr (flags, args) \<Rightarrow>
          Inr (compose_command root (flags ''with-agents'') @ [''logs'', ''--follow''] @ args))"

definition reset_command :: "string list \<Rightarrow> string \<Rightarrow> go_error + string list" where
  "reset_command arguments root =
     (case parse_flags [''with-agents'', ''yes''] arguments flags_off of
        Inl e \<Rightarrow> Inl e
      | Inr (flags, args) \<Rightarrow>
          if args \<noteq> []
          then Inl (New (''unexpected backend reset arguments: '' @ join_words args))
          else if \<not> flags ''yes''
          then Inl (New ''backend reset permanently removes Docker volumes; rerun with --yes'')
          else Inr (compose_command root (flags ''with-agents'')
                    @ [''down'', ''--volumes'', ''--remove-orphans'']))"

definition backend_command :: "string list \<Rightarrow> string \<Rightarrow> go_error + string list" where
  "backend_command arguments root =
     (case arguments of
        [] \<Rightarrow> Inl (New ''missing backend command'')
      | sub # rest \<Rightarrow>
          if sub = ''start'' then start_command rest root
          else if sub = ''stop''
          then (case parse_with_agents rest ''backend stop'' of
                  Inl e \<Rightarrow> Inl e
                | Inr with_agents \<Rightarrow> Inr (compose_command root with_agents @ [''down'']))
          else if sub = ''status''
          then (case parse_with_agents rest ''backend status'' of
                  Inl e \<Rightarrow> Inl e
                | Inr with_agents \<Rightarrow> Inr (compose_command root with_agents @ [''ps'']))
          else if sub = ''logs'' then logs_command rest root
          else if sub = ''reset'' then reset_command rest root
          else Inl (Quoted ''unknown backend command '' sub ''''))"

definition generate_command :: "string list \<Rightarrow> string \<Rightarrow> go_error + string list" where
  "generate_command arguments root =
     (if length arguments \<noteq> 1 \<or> hd arguments \<noteq> ''go'' then Inl (New ''usage: arxveil generate go'')
      else Inr [''build'',
                ''--target'', ''output'',
                ''--file'', join_path [root, ''proto'', ''Dockerfile.go''],
                ''--output'', ''type=local,dest='' @ join_path [root, ''server'', ''internal'', ''gen''],
                root])"

section \<open>Run\<close>

type_synonym 's command_runner = "string \<Rightarrow> string list \<Rightarrow> string \<Rightarrow> 's \<Rightarrow> go_error option \<times> 's"

record cli_result =
  exit_code :: int
  stdout :: "printed list"
  stderr :: "printed list"

definition select_command :: "string list \<Rightarrow> string \<Rightarrow> go_error + string list" where
  "select_command arguments root =
     (if hd arguments = ''backend'' then backend_command (tl arguments) root
      else if hd arguments = ''generate'' then generate_command (tl arguments) root
      else Inl (Quoted ''unknown command '' (hd arguments) ''''))"

definition run_cli ::
  "(string \<Rightarrow> stat_result) \<Rightarrow> go_error + string \<Rightarrow> string list \<Rightarrow> string \<Rightarrow> 's command_runner \<Rightarrow> 's
     \<Rightarrow> (cli_result \<times> 's) option" where
  "run_cli stat getwd arguments working_directory execute s =
     (if arguments = [] \<or> hd arguments = ''help'' \<or> hd arguments = ''--help'' \<or> hd arguments = ''-h''
      then Some (\<lparr>exit_code = 0, stdout = [Text usage], stderr = []\<rparr>, s)
      else case find_repository_root stat getwd working_directory of
        None \<Rightarrow> None
      | Some (Inl e) \<Rightarrow>
          Some (\<lparr>exit_code = 1, stdout = [],
                 stderr = [Text ''arxveil: '', Error_Text e, Text newline]\<rparr>, s)
      | Some (Inr root) \<Rightarrow>
     (case select_command arguments root of
        Inl e \<Rightarrow>
          Some (\<lparr>exit_code = 1, stdout = [],
                 stderr = [Text ''arxveil: '', Error_Text e, Text (newline @ newline), Text usage]\<rparr>, s)
      | Inr command \<Rightarrow>
     (case execute ''docker'' command root s of
        (Some e, s) \<Rightarrow>
          Some (\<lparr>exit_code = 1, stdout = [],
                 stderr = [Text ''arxveil: docker command failed: '', Error_Text e, Text newline]\<rparr>, s)
      | (None, s) \<Rightarrow> Some (\<lparr>exit_code = 0, stdout = [], stderr = []\<rparr>, s))))"

text \<open>\<open>exec.Command\<close> with the directory set and the tool's own streams passed on; running it is a
  parameter.\<close>

record exec_command =
  cmd_name :: string
  cmd_args :: "string list"
  cmd_dir :: string

definition execute_command :: "(exec_command \<Rightarrow> 's \<Rightarrow> go_error option \<times> 's) \<Rightarrow> 's command_runner" where
  "execute_command run_command name arguments directory s =
     run_command \<lparr>cmd_name = name, cmd_args = arguments, cmd_dir = directory\<rparr> s"

text \<open>\<open>main\<close>: \<open>os_args\<close> is \<open>os.Args\<close>, with the name of the program first.\<close>

definition cli_main ::
  "(string \<Rightarrow> stat_result) \<Rightarrow> go_error + string \<Rightarrow> string list
     \<Rightarrow> (exec_command \<Rightarrow> 's \<Rightarrow> go_error option \<times> 's) \<Rightarrow> 's \<Rightarrow> (cli_result \<times> 's) option" where
  "cli_main stat getwd os_args run_command s =
     (case getwd of
        Inl e \<Rightarrow>
          Some (\<lparr>exit_code = 1, stdout = [],
                 stderr = [Text ''arxveil: determine working directory: '', Error_Text e, Text newline]\<rparr>, s)
      | Inr working_directory \<Rightarrow>
          run_cli stat getwd (tl os_args) working_directory (execute_command run_command) s)"

section \<open>The search for the root\<close>

definition is_root :: "(string \<Rightarrow> stat_result) \<Rightarrow> string list \<Rightarrow> bool" where
  "is_root stat ws \<longleftrightarrow> is_file stat (rooted_path (ws @ [''infra'', ''compose.yaml'']))
     \<and> is_file stat (rooted_path (ws @ [''proto'', ''Dockerfile.go'']))"

text \<open>The directory itself and those above it, nearest first.\<close>

definition ancestors :: "string list \<Rightarrow> string list list" where
  "ancestors ws = rev (prefixes ws)"

lemma ancestors_Nil [simp]: "ancestors [] = [[]]"
  by (simp add: ancestors_def)

lemma ancestors_snoc [simp]: "ancestors (ws @ [w]) = (ws @ [w]) # ancestors ws"
  by (simp add: ancestors_def prefixes_snoc)

lemma plain_literals [simp]:
  "plain_name ''infra''" "plain_name ''compose.yaml''" "plain_name ''proto''"
  "plain_name ''Dockerfile.go''" "plain_name ''compose.agents.yaml''"
  "plain_name ''server''" "plain_name ''internal''" "plain_name ''gen''"
  by (simp_all add: plain_name_def slash_def)

lemma root_check:
  assumes "\<forall>w \<in> set ws. plain_name w"
  shows "is_file stat (join_path [rooted_path ws, ''infra'', ''compose.yaml'']) \<and>
    is_file stat (join_path [rooted_path ws, ''proto'', ''Dockerfile.go'']) \<longleftrightarrow> is_root stat ws"
  using join_path_rooted [OF assms, of "[''infra'', ''compose.yaml'']"]
    join_path_rooted [OF assms, of "[''proto'', ''Dockerfile.go'']"]
  by (simp add: is_root_def del: join_path.simps)

lemma find_root_loop_step:
  "\<forall>w \<in> set ws. plain_name w \<Longrightarrow> find_root_loop stat (rooted_path ws) =
     (if is_root stat ws then Some (Inr (rooted_path ws))
      else if dir (rooted_path ws) = rooted_path ws
      then Some (Inl (New ''could not find an Arxveil repository root''))
      else find_root_loop stat (dir (rooted_path ws)))"
  by (subst find_root_loop.simps) (simp only: root_check)

lemma find_root_loop_correct:
  "\<forall>w \<in> set ws. plain_name w \<Longrightarrow>
     find_root_loop stat (rooted_path ws) = Some
       (case find (is_root stat) (ancestors ws) of
          Some vs \<Rightarrow> Inr (rooted_path vs)
        | None \<Rightarrow> Inl (New ''could not find an Arxveil repository root''))"
proof (induction ws rule: rev_induct)
  case Nil
  then show ?case
    by (subst find_root_loop_step) (simp_all add: dir_root)
next
  case (snoc w ws)
  then have names: "\<forall>v \<in> set (ws @ [w]). plain_name v" "plain_name w" "\<forall>v \<in> set ws. plain_name v"
    by simp_all
  have "length (rooted_path ws) \<noteq> length (rooted_path (ws @ [w]))"
    using names(2) by (cases "ws = []") (auto simp: join_names_append rooted_path_def plain_name_def)
  then have "rooted_path ws \<noteq> rooted_path (ws @ [w])" by metis
  then show ?case
    using snoc.IH [OF names(3)] find_root_loop_step [OF names(1)] dir_rooted_snoc [OF names(3,2)]
    by simp
qed

text \<open>\<open>os.Getwd\<close> answers a rooted path name, or an error.\<close>

definition getwd_rooted :: "go_error + string \<Rightarrow> bool" where
  "getwd_rooted getwd \<longleftrightarrow> (case getwd of Inl _ \<Rightarrow> True | Inr wd \<Rightarrow> is_abs wd)"

lemma abs_path_rooted:
  assumes "getwd_rooted getwd" "abs_path getwd p = Inr d"
  obtains ws where "d = rooted_path ws" "\<forall>w \<in> set ws. plain_name w"
proof (cases "is_abs p")
  case True
  then show thesis using clean_abs [OF True] assms(2) that by (auto simp: abs_path_def)
next
  case False
  then obtain wd where wd: "getwd = Inr wd" "d = join_path [wd, p]"
    using assms(2) by (auto simp: abs_path_def split: sum.splits)
  with assms(1) have "is_abs wd" "wd \<noteq> ''''" by (auto simp: is_abs_def getwd_rooted_def)
  moreover have "is_abs (wd @ slash # p)"
    using \<open>is_abs wd\<close> by (auto simp: is_abs_def split: list.splits)
  ultimately show thesis
    using clean_abs [of "wd @ slash # p"] wd(2) that by auto
qed

section \<open>Requests\<close>

text \<open>What the tool can be asked for, the arguments that ask for it, and the \<^verbatim>\<open>docker\<close> arguments it
  stands for.\<close>

datatype request =
    Start bool bool
  | Stop bool
  | Status bool
  | Logs bool "string list"
  | Reset bool

definition agents_option :: "bool \<Rightarrow> string list" where
  "agents_option a = (if a then [''with-agents''] else [])"

fun request_arguments :: "request \<Rightarrow> string list" where
  "request_arguments (Start a d) = ''start'' # map option_of (agents_option a @ (if d then [''detach''] else []))"
| "request_arguments (Stop a) = ''stop'' # map option_of (agents_option a)"
| "request_arguments (Status a) = ''status'' # map option_of (agents_option a)"
| "request_arguments (Logs a services) = ''logs'' # map option_of (agents_option a) @ ''--'' # services"
| "request_arguments (Reset a) = ''reset'' # map option_of (agents_option a @ [''yes''])"

fun docker_arguments :: "string \<Rightarrow> request \<Rightarrow> string list" where
  "docker_arguments root (Start a d) =
     compose_command root a @ [''up'', ''--build''] @ (if d then [''--detach''] else [])"
| "docker_arguments root (Stop a) = compose_command root a @ [''down'']"
| "docker_arguments root (Status a) = compose_command root a @ [''ps'']"
| "docker_arguments root (Logs a services) = compose_command root a @ [''logs'', ''--follow''] @ services"
| "docker_arguments root (Reset a) = compose_command root a @ [''down'', ''--volumes'', ''--remove-orphans'']"

lemma option_names [simp]:
  "flag_name_ok ''with-agents''" "flag_name_ok ''detach''" "flag_name_ok ''yes''"
  by (simp_all add: flag_name_ok_def)

lemma flag_arg_end [simp]: "flag_arg_of ''--'' = End_Of_Flags"
  by (simp add: flag_arg_of_def)

lemma start_command_request:
  assumes "start_command rest root = Inr command"
  shows "\<exists>a d. command = docker_arguments root (Start a d)"
proof -
  obtain flags where "parse_flags [''with-agents'', ''detach''] rest flags_off = Inr (flags, [])"
    using assms by (auto simp: start_command_def split: sum.splits if_splits)
  with assms show ?thesis
    by (intro exI [of _ "flags ''with-agents''"] exI [of _ "flags ''detach''"])
       (auto simp: start_command_def)
qed

lemma logs_command_request:
  "logs_command rest root = Inr command \<Longrightarrow> \<exists>a services. command = docker_arguments root (Logs a services)"
  by (auto simp: logs_command_def split: sum.splits)

lemma reset_command_request:
  assumes "reset_command rest root = Inr command"
  shows "\<exists>a. command = docker_arguments root (Reset a) \<and> (\<exists>s \<in> set rest. turns_on ''yes'' s)"
proof -
  obtain flags where p: "parse_flags [''with-agents'', ''yes''] rest flags_off = Inr (flags, [])"
    "flags ''yes''" "command = docker_arguments root (Reset (flags ''with-agents''))"
    using assms by (auto simp: reset_command_def split: sum.splits if_splits)
  from parse_flags_on [OF p(1,2)] p(3) show ?thesis by (auto simp: flags_off_def)
qed

text \<open>Accepted arguments stand for a request.\<close>

lemma backend_command_request:
  assumes "backend_command arguments root = Inr command"
  shows "\<exists>r. command = docker_arguments root r \<and> hd arguments = hd (request_arguments r) \<and>
    (case r of Reset a \<Rightarrow> \<exists>s \<in> set arguments. turns_on ''yes'' s | _ \<Rightarrow> True)"
proof -
  obtain sub rest where args: "arguments = sub # rest"
    using assms by (cases arguments) (auto simp: backend_command_def)
  consider "sub = ''start''" "\<exists>a d. command = docker_arguments root (Start a d)"
    | "sub = ''stop''" "\<exists>a. command = docker_arguments root (Stop a)"
    | "sub = ''status''" "\<exists>a. command = docker_arguments root (Status a)"
    | "sub = ''logs''" "\<exists>a services. command = docker_arguments root (Logs a services)"
    | "sub = ''reset''" "\<exists>a. command = docker_arguments root (Reset a) \<and> (\<exists>s \<in> set rest. turns_on ''yes'' s)"
    using assms start_command_request [of rest root command] logs_command_request [of rest root command]
      reset_command_request [of rest root command]
    by (auto simp: args backend_command_def split: if_splits sum.splits)
  then show ?thesis
  proof cases
    case 1
    then obtain a d where "command = docker_arguments root (Start a d)" by blast
    with 1(1) args show ?thesis by (intro exI [of _ "Start a d"]) simp
  next
    case 2
    then obtain a where "command = docker_arguments root (Stop a)" by blast
    with 2(1) args show ?thesis by (intro exI [of _ "Stop a"]) simp
  next
    case 3
    then obtain a where "command = docker_arguments root (Status a)" by blast
    with 3(1) args show ?thesis by (intro exI [of _ "Status a"]) simp
  next
    case 4
    then obtain a services where "command = docker_arguments root (Logs a services)" by blast
    with 4(1) args show ?thesis by (intro exI [of _ "Logs a services"]) simp
  next
    case 5
    then obtain a where "command = docker_arguments root (Reset a)" "\<exists>s \<in> set rest. turns_on ''yes'' s"
      by blast
    with 5(1) args show ?thesis by (intro exI [of _ "Reset a"]) auto
  qed
qed

lemma select_command_request:
  assumes "arguments \<noteq> []" "select_command arguments root = Inr command"
  shows "hd arguments = ''backend'' \<and>
      (\<exists>r. command = docker_arguments root r \<and> hd (tl arguments) = hd (request_arguments r)) \<or>
    arguments = [''generate'', ''go'']"
proof (cases "hd arguments = ''backend''")
  case True
  with assms(2) have "backend_command (tl arguments) root = Inr command" by (simp add: select_command_def)
  from backend_command_request [OF this] True show ?thesis by blast
next
  case False
  with assms show ?thesis
    by (cases arguments)
       (auto simp: select_command_def generate_command_def length_Suc_conv split: if_splits)
qed

lemma find_repository_root_returns:
  assumes "getwd_rooted getwd"
  shows "\<exists>x. find_repository_root stat getwd p = Some x"
proof (cases "abs_path getwd p")
  case (Inl e)
  then show ?thesis by (simp add: find_repository_root_def)
next
  case (Inr d)
  obtain ws where "d = rooted_path ws" "\<forall>w \<in> set ws. plain_name w"
    using abs_path_rooted [OF assms Inr] .
  with Inr show ?thesis by (simp add: find_repository_root_def find_root_loop_correct)
qed

section \<open>Properties\<close>

text \<open>C37: what is asked for is what is run: for every request, the arguments that spell it out are
  parsed to exactly its \<^verbatim>\<open>docker\<close> command, with or without agents, and whatever the names of the
  services given after \<open>--\<close>.\<close>

theorem request_roundtrip:
  "backend_command (request_arguments r) root = Inr (docker_arguments root r)"
proof (cases r)
  case (Logs a services)
  then show ?thesis
    by (simp add: backend_command_def logs_command_def agents_option_def flags_off_def)
qed (simp_all add: backend_command_def start_command_def parse_with_agents_def reset_command_def
       agents_option_def flags_off_def)

text \<open>C36: the tool runs nothing else, and never removes data unasked: any arguments it accepts stand
  for a request of the same name, and a request to reset is only accepted when one of the arguments
  turns the flag \<open>yes\<close> on.\<close>

theorem accepted_commands:
  assumes "backend_command arguments root = Inr command"
  shows "\<exists>r. command = docker_arguments root r \<and> hd arguments = hd (request_arguments r) \<and>
    (case r of Reset a \<Rightarrow> \<exists>s \<in> set arguments. turns_on ''yes'' s | _ \<Rightarrow> True)"
  using assms by (rule backend_command_request)

text \<open>C35: the search for the repository root ends and finds the nearest one: started in a
  directory, taken apart into its names, it returns the closest directory, that one or above it, that holds both
  \<^verbatim>\<open>infra/compose.yaml\<close> and \<^verbatim>\<open>proto/Dockerfile.go\<close> as files, and an error if there is none up to \<^verbatim>\<open>/\<close>.\<close>

theorem repository_root_nearest:
  assumes "getwd_rooted getwd" "abs_path getwd start = Inr directory"
  shows "\<exists>ws. list_all plain_name ws \<and> directory = rooted_path ws \<and>
    find_repository_root stat getwd start = Some
      (case find (is_root stat) (ancestors ws) of
         Some vs \<Rightarrow> Inr (rooted_path vs)
       | None \<Rightarrow> Inl (New ''could not find an Arxveil repository root''))"
proof -
  obtain ws where "directory = rooted_path ws" "\<forall>w \<in> set ws. plain_name w"
    using abs_path_rooted [OF assms] .
  with find_root_loop_correct assms(2) show ?thesis
    by (intro exI [of _ ws]) (auto simp: find_repository_root_def list_all_iff)
qed

text \<open>C38: the tool always returns, and its exit code and output tell what happened. Asked for help, by no
  argument or by one of three words, it prints the usage to the standard output and ends with 0, and
  only then is anything printed there. Else it ends with 1 and runs nothing when there is no repository
  root or the arguments are not understood, with the error, and in the second case the usage, on the
  error stream; and when they are, they spell a request or are \<^verbatim>\<open>generate go\<close>, \<^verbatim>\<open>docker\<close> is run once in
  the root with the command they stand for, and the exit code is 0 or 1 as that succeeded or not.\<close>

theorem run_cli_result:
  assumes "getwd_rooted getwd"
  shows "\<exists>res s'. run_cli stat getwd arguments working_directory execute s = Some (res, s') \<and>
    (if arguments = [] \<or> hd arguments \<in> {''help'', ''--help'', ''-h''}
     then s' = s \<and> exit_code res = 0 \<and> stdout res = [Text usage] \<and> stderr res = []
     else stdout res = [] \<and>
       ((\<exists>e. find_repository_root stat getwd working_directory = Some (Inl e) \<and>
           s' = s \<and> exit_code res = 1 \<and> stderr res = [Text ''arxveil: '', Error_Text e, Text newline]) \<or>
        (\<exists>root e. find_repository_root stat getwd working_directory = Some (Inr root) \<and>
           select_command arguments root = Inl e \<and> s' = s \<and> exit_code res = 1 \<and>
           stderr res = [Text ''arxveil: '', Error_Text e, Text (newline @ newline), Text usage]) \<or>
        (\<exists>root command e. find_repository_root stat getwd working_directory = Some (Inr root) \<and>
           select_command arguments root = Inr command \<and>
           (hd arguments = ''backend'' \<and>
              (\<exists>r. command = docker_arguments root r \<and> hd (tl arguments) = hd (request_arguments r)) \<or>
            arguments = [''generate'', ''go'']) \<and>
           execute ''docker'' command root s = (e, s') \<and>
           exit_code res = (if e = None then 0 else 1) \<and>
           stderr res = (case e of None \<Rightarrow> []
             | Some err \<Rightarrow> [Text ''arxveil: docker command failed: '', Error_Text err, Text newline]))))"
proof (cases "arguments = [] \<or> hd arguments \<in> {''help'', ''--help'', ''-h''}")
  case True
  then show ?thesis by (auto simp: run_cli_def)
next
  case False
  obtain x where x: "find_repository_root stat getwd working_directory = Some x"
    using find_repository_root_returns [OF assms] by blast
  show ?thesis
  proof (cases x)
    case (Inl e)
    with False x show ?thesis by (simp add: run_cli_def)
  next
    case (Inr root)
    show ?thesis
    proof (cases "select_command arguments root")
      case (Inl e)
      with False x Inr show ?thesis by (simp add: run_cli_def)
    next
      case command: (Inr command)
      obtain e s1 where run: "execute ''docker'' command root s = (e, s1)" by force
      from False x Inr command run select_command_request [OF _ command] show ?thesis
        by (cases e) (simp_all add: run_cli_def)
    qed
  qed
qed

section \<open>Witnesses\<close>

definition demo_stat :: "string \<Rightarrow> stat_result" where
  "demo_stat p = (if p = ''/a/infra/compose.yaml'' \<or> p = ''/a/proto/Dockerfile.go'' then Is_File
     else if p = ''/a'' then Is_Directory else Stat_Failed)"

theorem accepted_commands_witness:
  "\<exists>r. compose_command ''/r'' False @ [''down'', ''--volumes'', ''--remove-orphans''] = docker_arguments ''/r'' r \<and>
    hd [''reset'', ''--yes''] = hd (request_arguments r) \<and>
    (case r of Reset a \<Rightarrow> \<exists>s \<in> set [''reset'', ''--yes'']. turns_on ''yes'' s | _ \<Rightarrow> True)"
  by (rule accepted_commands) code_simp

theorem repository_root_nearest_witness:
  "\<exists>ws. list_all plain_name ws \<and> ''/a'' = rooted_path ws \<and>
    find_repository_root demo_stat (Inr ''/'') ''a'' = Some
      (case find (is_root demo_stat) (ancestors ws) of
         Some vs \<Rightarrow> Inr (rooted_path vs)
       | None \<Rightarrow> Inl (New ''could not find an Arxveil repository root''))"
proof (rule repository_root_nearest)
  show "getwd_rooted (Inr ''/'')" by (simp add: getwd_rooted_def is_abs_def slash_def)
  show "abs_path (Inr ''/'') ''a'' = Inr ''/a''" by code_simp
qed

definition demo_execute :: "string list command_runner" where
  "demo_execute = (\<lambda>name command directory s. (None, s @ [name]))"

text \<open>In the root, \<^verbatim>\<open>generate go\<close> runs \<^verbatim>\<open>docker\<close> once; an unknown command ends with 1 and runs nothing.\<close>

theorem run_cli_result_witness:
  "(\<exists>res. run_cli demo_stat (Inr ''/a'') [''generate'', ''go''] ''/a'' demo_execute [] = Some (res, [''docker'']) \<and>
     exit_code res = 0 \<and> stdout res = [] \<and> stderr res = []) \<and>
   (\<exists>res. run_cli demo_stat (Inr ''/a'') [''deploy''] ''/a'' demo_execute [] = Some (res, []) \<and>
     exit_code res = 1 \<and> stdout res = [] \<and> last (stderr res) = Text usage)"
proof -
  have wd: "getwd_rooted (Inr ''/a'')" by (simp add: getwd_rooted_def is_abs_def slash_def)
  have root: "find_repository_root demo_stat (Inr ''/a'') ''/a'' = Some (Inr ''/a'')" by code_simp
  have generate: "\<exists>c. select_command [''generate'', ''go''] ''/a'' = Inr c"
    by (simp add: select_command_def generate_command_def)
  have deploy: "\<exists>e. select_command [''deploy''] ''/a'' = Inl e"
    by (simp add: select_command_def)
  note result = run_cli_result [OF wd, of demo_stat _ "''/a''" demo_execute "[]"]
  show ?thesis
    using result [of "[''generate'', ''go'']"] result [of "[''deploy'']"] generate deploy
    by (auto simp: root demo_execute_def)
qed

end
