(* ===== verification/Spec2Isabelle.thy ===== *)
theory Spec2Isabelle
  imports Application Stream_Life Shutdown Agent_Service Cli
begin

text \<open>
  Arxveil keeps an inventory of machines: agents enroll over gRPC, then hold a stream open on which they
  send heartbeats and telemetry, and the server keeps what they report in PostgreSQL. This library models
  the Go code of the repository, the server under \<^verbatim>\<open>src/server\<close> and the development command line
  under \<^verbatim>\<open>src/tools/arxveil\<close>, and proves what makes it correct.

  \<^bold>\<open>The parts and their theories.\<close>
  \<^item> \<open>Prelude\<close>: machine types, Go error values with \<open>errors.Is\<close>, contexts. \<open>Go_Strings\<close>,
    \<open>Go_Crypto\<close>, \<open>Go_Encoding\<close>, \<open>Go_Float\<close>, \<open>Go_Path\<close>, \<open>Go_Flag\<close>: what the code uses of the standard
    library, executable: \<open>strings.TrimSpace\<close> on UTF-8 bytes, SHA-256 and \<open>hmac.Equal\<close>, unpadded URL
    base64 and \<open>io.ReadFull\<close>, comparisons of IEEE doubles by their bits, \<open>filepath.Join\<close>, \<open>Dir\<close> and
    \<open>Abs\<close>, boolean flags of a \<open>flag.FlagSet\<close>.
  \<^item> \<open>Protocol\<close>: the messages of \<^verbatim>\<open>internal/gen/agent/v1/agent.pb.go\<close> with their nil-safe getters and \<open>Reset\<close>.
  \<^item> \<open>Enrollment\<close>, \<open>Presence\<close>, \<open>Telemetry\<close>: the services of \<^verbatim>\<open>internal/enrollment\<close>,
    \<^verbatim>\<open>internal/presence\<close> and \<^verbatim>\<open>internal/telemetry\<close>, each over a record of the store operations it
    calls. An operation takes the state of the store and returns its result and the new state; an error is
    the left of a sum, or \<open>Some\<close> where the code returns only an error. The locale of each theory holds the
    laws of its store interface and the lemmas that follow from them.
  \<^item> \<open>Agent_Grpc\<close>: the handlers of \<^verbatim>\<open>internal/agentgrpc/server.go\<close> over records of the three services. A
    stream is the list of what its \<open>Recv\<close> calls give; used up, the handler is blocked in \<open>Recv\<close>.
  \<^item> \<open>Database\<close>: the tables, checks and keys of \<^verbatim>\<open>migrations/000001_create_v1_machine_schema.up.sql\<close>,
    the clock, the fresh identifiers and a list of faults that any statement may meet.
    \<open>Enrollment_Store\<close>, \<open>Presence_Store\<close>, \<open>Telemetry_Store\<close>: the SQL statements and transactions of
    \<^verbatim>\<open>internal/repository/postgres\<close> on these tables, with interpretations of the store locales.
    \<open>Server_Database\<close>: all store calls together, the invariant \<open>world_ok\<close> and reachable databases.
    \<open>Sample_Platform\<close>: a concrete database on which the hypotheses about PostgreSQL hold.
  \<^item> \<open>Services\<close>: the services put into the interfaces of the gRPC server. \<open>Streams\<close>: the stream handler
    cut at its store operations, so that any number of streams and enrollments interleave, with the
    invariant of the interleaving in a locale that extends the presence contract. \<open>Server\<close>: its
    interpretation on the PostgreSQL stores and the properties of the concurrent server. \<open>Stream_Life\<close>:
    one whole stream, from the credentials to the acknowledgement, on a working database.
  \<^item> \<open>Transactions\<close>: \<open>StartSession\<close> and \<open>EndSession\<close> cut at their round trips (\<open>txn_step\<close>), with the
    row locks of the database (\<open>advance\<close>, \<open>schedule\<close>), so that the statements of several transactions
    interleave under \<open>READ COMMITTED\<close>. \<open>Interleavings\<close>: the invariant that ties a transaction in progress to
    the row it has locked, the atomic specification \<open>presence_spec\<close> and the forward simulation.
    \<open>Concurrent_Server\<close>: the streams over these statements (\<open>handler_step\<close>), with restarts of the server
    (\<open>streams_step\<close>). \<open>Draining\<close>: the handlers whose connections are closed (\<open>drain_step\<close>) and the rank
    that each of their steps lowers. \<open>Shutdown\<close>: the steps of \<open>Lifecycle\<close> and of the handlers in one system
    (\<open>system_step\<close>), coupled where \<open>GracefulStop\<close> returns.
  \<^item> \<open>Agent_Service\<close>: the generated \<^verbatim>\<open>internal/gen/agent/v1/agent_grpc.pb.go\<close>: server interface, handlers,
    descriptor, registration and client stubs.
  \<^item> \<open>Config\<close>, \<open>Health\<close>: \<^verbatim>\<open>internal/config\<close>, and \<^verbatim>\<open>internal/health\<close> with the routes of
    \<^verbatim>\<open>internal/httpapi\<close>. \<open>Lifecycle\<close>: \<open>serve\<close> and \<open>shutdown\<close> of
    \<^verbatim>\<open>cmd/arxveil-server/application.go\<close> as a step relation over the goroutines, the error channel, the
    signal and the deadline. \<open>Application\<close>: the wiring of \<open>newApplication\<close> and the program of \<^verbatim>\<open>main.go\<close>.
  \<^item> \<open>Cli\<close>: \<^verbatim>\<open>tools/arxveil/main.go\<close>.

  \<^bold>\<open>What the theorems show.\<close>
  \<^item> Streams and presence: the handler in one piece is a run of its steps; in every interleaving a machine
    is online exactly when an open stream holds its latest session, and a session that a newer connection
    has superseded changes nothing; presence events alternate; a stream opens one session, makes every
    call its messages ask for until one fails, and closes it exactly once; what it answers is determined
    by the event it ends at and the call that failed, with fixed texts; a stream of sensible reports is
    acknowledged, with the last sample of every time of collection stored.
  \<^item> Statements: a session call that runs alone is the call in one piece; every interleaving of the
    statements refines the atomic specification and keeps the schema and the history of every machine; no
    call waits for ever; a machine is online exactly when an open stream holds its latest session, at every
    moment between two statements and over crashes and restarts of the server. The dates of the events do
    not follow their order.
  \<^item> Enrollment and credentials: validation accepts exactly the acceptable inputs; the secret that is handed
    out encodes the next 32 bytes of the random source, is stored as its digest only, opens a session later whatever happened in between, and a secret with
    another digest does not; an enrollment adds a machine with its identity or nothing, and no two
    enrollments get the same agent or machine.
  \<^item> Telemetry: exactly the sensible samples are accepted, those never violate a constraint, and whatever
    goes wrong at most the one row of the sample is touched.
  \<^item> Database: every constraint of the migration holds in every reachable state of the concurrent server
    and of the wired application.
  \<^item> Lifecycle: the error channel never blocks a goroutine, \<open>serve\<close> ends after at most eleven steps, its
    result tells what happened, and the pool is closed once on every path. With their connections closed,
    the running handlers return after at most eleven steps each, so a forced stop ends; when \<open>serve\<close> has
    returned without an error of the HTTP shutdown, no machine is left online unless an error or a crash
    has put it in doubt; with that error, machines of open streams are left online.
  \<^item> Command line: requests are parsed back to their \<^verbatim>\<open>docker\<close> command, nothing else is accepted, a
    reset takes the flag \<open>yes\<close>, the search for the repository root ends with the nearest one, and the exit
    code and the output tell what happened.

  \<^bold>\<open>Code outside the repository\<close> is a parameter, with its documented behaviour as a named hypothesis:
  PostgreSQL and its driver (\<open>pg\<close> with \<open>pg_lawful\<close>: increasing clock, values survive the way out and in;
  \<open>fresh_ids\<close>), UUID parsing and protobuf timestamps (\<open>externals\<close>), the HTTP router (\<open>engine_lawful\<close>), a
  ping that changes no table (\<open>ping_lawful\<close>), the delivery of a call by its full method name, which may
  fail before and after the handler has run (\<open>delivers\<close>), \<open>os.Getwd\<close> giving a rooted path, the file system, the
  runner of commands, listening and connecting. Every such hypothesis is discharged in a witness. That
  \<open>GracefulStop\<close> returns when the handlers have, and that \<open>Stop\<close> closes the connections so that \<open>Recv\<close>
  fails, is the guard of two rules of \<open>system_step\<close>.

  \<^bold>\<open>Bounds and fuel.\<close> No definition takes fuel. Loops are structural, or functions with a termination proof;
  the search of the command line is a loop in the option monad that is shown to end. Integers of the code
  are words where their width matters: \<open>int64\<close> counters and the bits of doubles in telemetry, bytes in the
  encodings.

  \<^bold>\<open>Idealised.\<close> The clock of the database increases strictly from one reading to the next, while PostgreSQL
  counts microseconds and follows the clock of its host, and every time a message can carry (years 1 to
  9999) is within the range of its timestamps.

  \<^bold>\<open>Not modelled.\<close> Text of log lines and the rendering of error values; panics and \<open>gin.Recovery\<close>; what
  the HTTP, gRPC and database libraries do inside a call; interleaving inside the enrollment transaction,
  which writes new rows only and is atomic, and inside a single SQL statement; the reflection plumbing of
  the generated messages; \<^verbatim>\<open>proto/Dockerfile.go\<close>, which is a Dockerfile; the agent (\<^verbatim>\<open>src/agent\<close>) and the
  client (\<^verbatim>\<open>src/app\<close>), which are programs of their own in other languages.
\<close>

end
